theory Spec2Isabelle
  imports Complex_Main
begin

section \<open>Python values, dictionaries and exceptions\<close>

text \<open>
  A scraped listing is a Python \<^verbatim>\<open>Dict\<close> from field names to values. The values that the
  scrapers put into a listing are \<^verbatim>\<open>None\<close>, strings, integers, floats and timestamps.
  A finite float is carried by the real number it denotes (the comparisons of the validator
  with integer constants are exact on it); NaN and the infinities are outside the model.
  A timestamp (\<^verbatim>\<open>datetime\<close>) is carried by an integer count of clock ticks.
\<close>

datatype pyval = PNone | PStr string | PInt int | PFloat real | PDatetime int

type_synonym listing = "string \<rightharpoonup> pyval"

datatype error =
    KeyError string
  | TypeError
  | ValueError
  | AttributeError
  | ConnectionError
  | NotNullViolation string
  | DatabaseError
  | ClientError
  | ClientResponseError nat
  | RetryError

text \<open>\<^verbatim>\<open>listing.get(field)\<close>: the value, or \<^verbatim>\<open>None\<close> when the key is absent.\<close>

definition get :: "listing \<Rightarrow> string \<Rightarrow> pyval" where
  "get l k = (case l k of None \<Rightarrow> PNone | Some v \<Rightarrow> v)"

text \<open>\<^verbatim>\<open>listing[field]\<close>: raises \<^verbatim>\<open>KeyError\<close> when the key is absent.\<close>

definition subscript :: "listing \<Rightarrow> string \<Rightarrow> error + pyval" where
  "subscript l k = (case l k of None \<Rightarrow> Inl (KeyError k) | Some v \<Rightarrow> Inr v)"

text \<open>Truth value testing, as \<^verbatim>\<open>if x\<close> and \<^verbatim>\<open>not x\<close> do it.\<close>

fun truthy :: "pyval \<Rightarrow> bool" where
  "truthy PNone = False"
| "truthy (PStr s) = (s \<noteq> [])"
| "truthy (PInt i) = (i \<noteq> 0)"
| "truthy (PFloat r) = (r \<noteq> 0)"
| "truthy (PDatetime t) = True"

text \<open>
  \<^verbatim>\<open>x < k\<close> and \<^verbatim>\<open>x > k\<close> for an integer constant \<^verbatim>\<open>k\<close>: numbers compare by value,
  anything else raises \<^verbatim>\<open>TypeError\<close>.
\<close>

fun py_lt :: "pyval \<Rightarrow> int \<Rightarrow> error + bool" where
  "py_lt (PInt i) k = Inr (i < k)"
| "py_lt (PFloat r) k = Inr (r < of_int k)"
| "py_lt _ k = Inl TypeError"

fun py_gt :: "pyval \<Rightarrow> int \<Rightarrow> error + bool" where
  "py_gt (PInt i) k = Inr (i > k)"
| "py_gt (PFloat r) k = Inr (r > of_int k)"
| "py_gt _ k = Inl TypeError"

section \<open>The validator (\<^verbatim>\<open>EnhancedFundaScraper.validate_listing\<close>)\<close>

text \<open>
  \<^verbatim>\<open>
  required_fields = ['source_id', 'address', 'city']
  for field in required_fields:
      if not listing.get(field):
          return False
  price = listing.get('price')
  if price and (price < 50000 or price > 5000000):
      return False
  return True
  \<close>
  \<^verbatim>\<open>or\<close> evaluates its right operand only when the left one is false.
\<close>

definition required_fields :: "string list" where
  "required_fields = [''source_id'', ''address'', ''city'']"

fun required_loop :: "listing \<Rightarrow> string list \<Rightarrow> bool" where
  "required_loop l [] = True"
| "required_loop l (field # fields) =
     (if \<not> truthy (get l field) then False else required_loop l fields)"

definition price_outlier :: "pyval \<Rightarrow> error + bool" where
  "price_outlier p =
     (case py_lt p 50000 of
        Inl e \<Rightarrow> Inl e
      | Inr True \<Rightarrow> Inr True
      | Inr False \<Rightarrow> py_gt p 5000000)"

definition validate_listing :: "listing \<Rightarrow> error + bool" where
  "validate_listing l =
     (if \<not> required_loop l required_fields then Inr False
      else let p = get l ''price'' in
        if \<not> truthy p then Inr True
        else (case price_outlier p of
                Inl e \<Rightarrow> Inl e
              | Inr True \<Rightarrow> Inr False
              | Inr False \<Rightarrow> Inr True))"

text \<open>
  The validator as the specification words it: a field is present when the listing has a
  value other than \<^verbatim>\<open>None\<close> for it; a present numeric price must lie within the bounds.
\<close>

definition present :: "listing \<Rightarrow> string \<Rightarrow> bool" where
  "present l k = (get l k \<noteq> PNone)"

fun number_of :: "pyval \<Rightarrow> real option" where
  "number_of (PInt i) = Some (of_int i)"
| "number_of (PFloat r) = Some r"
| "number_of _ = None"

definition validate_spec :: "listing \<Rightarrow> bool" where
  "validate_spec l =
     (present l ''source_id'' \<and> present l ''address'' \<and> present l ''city'' \<and>
      (case number_of (get l ''price'') of
         None \<Rightarrow> True
       | Some r \<Rightarrow> \<not> r < 50000 \<and> \<not> r > 5000000))"

text \<open>A complete listing as the scraper builds it, with a price to vary.\<close>

definition sample_listing :: "pyval \<Rightarrow> listing" where
  "sample_listing p =
     [''source'' \<mapsto> PStr ''funda'', ''source_id'' \<mapsto> PStr ''42'',
      ''url'' \<mapsto> PStr ''/koop/42/'', ''address'' \<mapsto> PStr ''Dam 1'',
      ''postal_code'' \<mapsto> PStr ''1012JS'', ''city'' \<mapsto> PStr ''amsterdam'',
      ''price'' \<mapsto> p, ''size_m2'' \<mapsto> PNone, ''rooms'' \<mapsto> PInt 3,
      ''property_type'' \<mapsto> PStr ''apartment'', ''listing_type'' \<mapsto> PStr ''sale'',
      ''scraped_at'' \<mapsto> PDatetime 1]"

section \<open>The price parsers (\<^verbatim>\<open>parse_price_text\<close> and \<^verbatim>\<open>parse_price\<close>)\<close>

text \<open>
  \<^verbatim>\<open>EnhancedFundaScraper.parse_price_text\<close>:
  \<^verbatim>\<open>
  try:
      price_clean = re.sub(r'[^\d,.]', '', price_text)
      price_clean = price_clean.replace('.', '').replace(',', '.')
      if '.' in price_clean:
          parts = price_clean.split('.')
          if len(parts) == 2 and len(parts[1]) <= 2:
              return float(price_clean)
          else:
              return float(price_clean.replace('.', ''))
      return float(price_clean)
  except (ValueError, AttributeError):
      return None
  \<close>
  \<^verbatim>\<open>FundaScraper.parse_price\<close>, whose docstring is
  \<^verbatim>\<open>Parse price from text like '\<euro> 425.000 k.k.'\<close>:
  \<^verbatim>\<open>
  try:
      price = price_text.replace('\<euro>', '').replace('.', '').replace('k.k.', '')
      price = price.strip().replace(',', '.')
      return float(price)
  except:
      return None
  \<close>
  Both take a \<^verbatim>\<open>str\<close> (\<^verbatim>\<open>price_text: str\<close>). A Python string is a sequence of Unicode code
  points, here a list of natural numbers; \<open>codepoints\<close> reads an ASCII literal as such a
  list, and the euro sign is the code point U+20AC.

  Decimal digits. In a \<^verbatim>\<open>str\<close> pattern \<^verbatim>\<open>\d\<close> matches every character with the Unicode
  property of a decimal digit, and \<^verbatim>\<open>float\<close> reads each such character as the ASCII digit
  of its value. Which code points beyond ASCII have the property depends on the Unicode
  version of the interpreter, so the table is a parameter \<open>nd\<close> of the model (code point
  to digit value), and every result below holds for every table. \<open>decimal\<close> fixes what
  does not depend on the version: the ASCII digits have their values, and no other ASCII
  character, nor the euro sign, nor a whitespace character is a decimal digit.

  Whitespace. \<open>is_space\<close> lists the code points that \<^verbatim>\<open>str.strip\<close> removes
  (\<^verbatim>\<open>Py_UNICODE_ISSPACE\<close>).

  Floats. \<^verbatim>\<open>float\<close> on a string computes the decimal value of a literal and rounds it to
  the nearest double, infinite when the value is out of range. The rounding is a parameter
  \<open>fl\<close> of the model: \<open>rounded fl neg m\<close> is the float that Python returns for a literal of
  magnitude \<open>m\<close> with sign \<open>neg\<close>, \<open>infinity fl neg\<close> and \<open>nan fl neg\<close> are those for the
  words \<^verbatim>\<open>inf\<close> and \<^verbatim>\<open>nan\<close>. Every result below holds for every \<open>fl\<close>.
\<close>

type_synonym unicode = "nat list"

definition codepoints :: "string \<Rightarrow> unicode" where
  "codepoints s = map of_char s"

abbreviation comma :: nat where "comma \<equiv> 44"
abbreviation dot :: nat where "dot \<equiv> 46"
abbreviation euro :: nat where "euro \<equiv> 8364"

definition is_space :: "nat \<Rightarrow> bool" where
  "is_space c =
     (c \<in> set [9, 10, 11, 12, 13, 28, 29, 30, 31, 32, 133, 160, 5760,
                8192, 8193, 8194, 8195, 8196, 8197, 8198, 8199, 8200, 8201, 8202,
                8232, 8233, 8239, 8287, 12288])"

definition decimal :: "(nat \<Rightarrow> nat option) \<Rightarrow> nat \<Rightarrow> nat option" where
  "decimal nd c =
     (if 48 \<le> c \<and> c \<le> 57 then Some (c - 48)
      else if c < 128 \<or> c = euro \<or> is_space c then None
      else (case nd c of Some d \<Rightarrow> if d \<le> 9 then Some d else None | None \<Rightarrow> None))"

definition is_digit :: "(nat \<Rightarrow> nat option) \<Rightarrow> nat \<Rightarrow> bool" where
  "is_digit nd c = (decimal nd c \<noteq> None)"

definition digits_val :: "(nat \<Rightarrow> nat option) \<Rightarrow> unicode \<Rightarrow> nat" where
  "digits_val nd s =
     foldl (\<lambda>n c. 10 * n + (case decimal nd c of Some d \<Rightarrow> d | None \<Rightarrow> 0)) 0 s"

record 'f floats =
  rounded :: "bool \<Rightarrow> real \<Rightarrow> 'f"
  infinity :: "bool \<Rightarrow> 'f"
  nan :: "bool \<Rightarrow> 'f"

text \<open>
  \<^verbatim>\<open>float(s)\<close> as CPython computes it on a string. \<open>transform\<close>
  (\<^verbatim>\<open>_PyUnicode_TransformDecimalAndSpaceToASCII\<close>) keeps the code points below 127, turns
  whitespace into a blank and a decimal digit into the ASCII digit of its value, and cuts
  the text with a question mark at the first other character; \<open>to_ascii\<close> is its action
  on one character that is not cut. Underscores (code point 95) are allowed between two
  digits only and are then removed (\<open>underscores_ok\<close>). \<open>float_from_string_inner\<close> strips
  ASCII whitespace, reads a sign, and accepts the words \<^verbatim>\<open>inf\<close>, \<^verbatim>\<open>infinity\<close> and \<^verbatim>\<open>nan\<close> in any
  case or a decimal literal (\<open>float_literal\<close>: digits with at most one dot and at least
  one digit, then optionally \<^verbatim>\<open>e\<close> or \<^verbatim>\<open>E\<close>, a sign and at least one digit); anything else
  raises \<^verbatim>\<open>ValueError\<close>.
\<close>

definition to_ascii :: "(nat \<Rightarrow> nat option) \<Rightarrow> nat \<Rightarrow> nat" where
  "to_ascii nd c =
     (if c < 127 then c
      else if is_space c then 32
      else (case decimal nd c of Some d \<Rightarrow> 48 + d | None \<Rightarrow> 63))"

fun transform :: "(nat \<Rightarrow> nat option) \<Rightarrow> unicode \<Rightarrow> nat list" where
  "transform nd [] = []"
| "transform nd (c # cs) =
     (if c < 127 then c # transform nd cs
      else if is_space c then 32 # transform nd cs
      else (case decimal nd c of
              Some d \<Rightarrow> (48 + d) # transform nd cs
            | None \<Rightarrow> [63]))"

definition ascii_space :: "nat \<Rightarrow> bool" where
  "ascii_space c = (c \<in> set [9, 10, 11, 12, 13, 32])"

definition ascii_digit :: "nat \<Rightarrow> bool" where
  "ascii_digit c = (48 \<le> c \<and> c \<le> 57)"

definition ascii_val :: "nat list \<Rightarrow> nat" where
  "ascii_val s = foldl (\<lambda>n c. 10 * n + (c - 48)) 0 s"

definition lower :: "nat \<Rightarrow> nat" where
  "lower c = (if 65 \<le> c \<and> c \<le> 90 then c + 32 else c)"

definition strip_with :: "(nat \<Rightarrow> bool) \<Rightarrow> nat list \<Rightarrow> nat list" where
  "strip_with sp s = rev (dropWhile sp (rev (dropWhile sp s)))"

fun underscores_ok :: "nat \<Rightarrow> nat list \<Rightarrow> bool" where
  "underscores_ok prev [] = (prev \<noteq> 95)"
| "underscores_ok prev (c # cs) =
     (if c = 95 then ascii_digit prev \<and> underscores_ok c cs
      else if prev = 95 then ascii_digit c \<and> underscores_ok c cs
      else underscores_ok c cs)"

definition scale :: "real \<Rightarrow> int \<Rightarrow> real" where
  "scale m e = (if 0 \<le> e then m * 10 ^ nat e else m / 10 ^ nat (- e))"

definition float_literal :: "nat list \<Rightarrow> real option" where
  "float_literal d =
     (let mant = takeWhile (\<lambda>c. c \<noteq> 101 \<and> c \<noteq> 69) d;
          ex = dropWhile (\<lambda>c. c \<noteq> 101 \<and> c \<noteq> 69) d;
          ip = takeWhile (\<lambda>c. c \<noteq> dot) mant;
          fp = tl (dropWhile (\<lambda>c. c \<noteq> dot) mant);
          m = real (ascii_val ip) + real (ascii_val fp) / 10 ^ length fp
      in if \<not> (list_all ascii_digit ip \<and> list_all ascii_digit fp \<and> (ip \<noteq> [] \<or> fp \<noteq> []))
         then None
         else if ex = [] then Some m
         else (let signed = tl ex;
                   eneg = (signed \<noteq> [] \<and> hd signed = 45);
                   ds = (if signed \<noteq> [] \<and> (hd signed = 45 \<or> hd signed = 43)
                         then tl signed else signed)
               in if ds = [] \<or> \<not> list_all ascii_digit ds then None
                  else Some (scale m (if eneg then - int (ascii_val ds) else int (ascii_val ds)))))"

definition float_from_string_inner :: "'f floats \<Rightarrow> nat list \<Rightarrow> error + 'f" where
  "float_from_string_inner fl a =
     (let a = strip_with ascii_space a;
          neg = (a \<noteq> [] \<and> hd a = 45);
          b = (if a \<noteq> [] \<and> (hd a = 45 \<or> hd a = 43) then tl a else a);
          l = map lower b
      in if l = codepoints ''inf'' \<or> l = codepoints ''infinity'' then Inr (infinity fl neg)
         else if l = codepoints ''nan'' then Inr (nan fl neg)
         else (case float_literal b of
                 None \<Rightarrow> Inl ValueError
               | Some m \<Rightarrow> Inr (rounded fl neg m)))"

definition py_float :: "'f floats \<Rightarrow> (nat \<Rightarrow> nat option) \<Rightarrow> unicode \<Rightarrow> error + 'f" where
  "py_float fl nd s =
     (let a = transform nd s
      in if 95 \<in> set a then
           (if underscores_ok 0 a then float_from_string_inner fl (filter (\<lambda>c. c \<noteq> 95) a)
            else Inl ValueError)
         else float_from_string_inner fl a)"

text \<open>
  \<^verbatim>\<open>str.split(sep)\<close> for a separator of one character, and \<^verbatim>\<open>str.replace(old, new)\<close>, which
  replaces the occurrences of \<open>old\<close> from left to right without overlap (for an empty
  \<open>old\<close>, \<open>new\<close> is inserted before every character and at the end).
\<close>

fun split_on :: "'a \<Rightarrow> 'a list \<Rightarrow> 'a list list" where
  "split_on sep [] = [[]]"
| "split_on sep (c # cs) =
     (if c = sep then [] # split_on sep cs
      else (case split_on sep cs of [] \<Rightarrow> [[c]] | p # ps \<Rightarrow> (c # p) # ps))"

fun replace :: "'a list \<Rightarrow> 'a list \<Rightarrow> 'a list \<Rightarrow> 'a list" where
  "replace [] new s = new @ concat (map (\<lambda>c. c # new) s)"
| "replace (x # xs) new [] = []"
| "replace (x # xs) new (c # cs) =
     (if take (Suc (length xs)) (c # cs) = x # xs
      then new @ replace (x # xs) new (drop (length xs) cs)
      else c # replace (x # xs) new cs)"

text \<open>The two parsers. Neither raises on a string: \<^verbatim>\<open>float\<close> raises \<^verbatim>\<open>ValueError\<close> only.\<close>

definition parse_price_text ::
  "'f floats \<Rightarrow> (nat \<Rightarrow> nat option) \<Rightarrow> unicode \<Rightarrow> error + 'f option" where
  "parse_price_text fl nd price_text =
     (let price_clean = filter (\<lambda>c. is_digit nd c \<or> c = comma \<or> c = dot) price_text;
          price_clean = replace [comma] [dot] (replace [dot] [] price_clean);
          r = (if dot \<in> set price_clean then
                 (let parts = split_on dot price_clean in
                  if length parts = 2 \<and> length (parts ! 1) \<le> 2 then py_float fl nd price_clean
                  else py_float fl nd (replace [dot] [] price_clean))
               else py_float fl nd price_clean)
      in case r of
           Inr x \<Rightarrow> Inr (Some x)
         | Inl ValueError \<Rightarrow> Inr None
         | Inl AttributeError \<Rightarrow> Inr None
         | Inl e \<Rightarrow> Inl e)"

definition parse_price :: "'f floats \<Rightarrow> (nat \<Rightarrow> nat option) \<Rightarrow> unicode \<Rightarrow> 'f option" where
  "parse_price fl nd price_text =
     (let price = replace (codepoints ''k.k.'') []
                    (replace [dot] [] (replace [euro] [] price_text));
          price = replace [comma] [dot] (strip_with is_space price)
      in case py_float fl nd price of Inr x \<Rightarrow> Some x | Inl e \<Rightarrow> None)"

text \<open>
  For evaluating the parsers on concrete texts: \<open>symbolic\<close> keeps the literal that is to
  be rounded (\<open>Nearest neg m\<close> stands for the double nearest to \<open>m\<close>, with sign \<open>neg\<close>), and
  \<open>arabic_indic\<close> is the part of the table of decimal digits that holds the Arabic-Indic
  digits U+0660 to U+0669.
\<close>

datatype pyfloat = Nearest bool real | Infinity bool | NaN

definition symbolic :: "pyfloat floats" where
  "symbolic = \<lparr>rounded = Nearest, infinity = Infinity, nan = (\<lambda>neg. NaN)\<rparr>"

definition arabic_indic :: "nat \<Rightarrow> nat option" where
  "arabic_indic c = (if 1632 \<le> c \<and> c \<le> 1641 then Some (c - 1632) else None)"

text \<open>
  For stating what the parsers compute: the digits and commas of a text, and the reading of
  a text with at most one comma (the digits before it, and the digits after it as the
  decimal fraction).
\<close>

definition comma_text :: "(nat \<Rightarrow> nat option) \<Rightarrow> unicode \<Rightarrow> unicode" where
  "comma_text nd s = filter (\<lambda>c. is_digit nd c \<or> c = comma) s"

definition comma_to_dot :: "nat \<Rightarrow> nat" where
  "comma_to_dot c = (if c = comma then dot else c)"

definition decimal_comma_form :: "(nat \<Rightarrow> nat option) \<Rightarrow> unicode \<Rightarrow> bool" where
  "decimal_comma_form nd s =
     (count_list (comma_text nd s) comma = 1
      \<and> length (tl (dropWhile (\<lambda>c. c \<noteq> comma) (comma_text nd s))) \<le> 2)"

definition decimal_comma_value :: "(nat \<Rightarrow> nat option) \<Rightarrow> unicode \<Rightarrow> real" where
  "decimal_comma_value nd s =
     (let whole = takeWhile (\<lambda>c. c \<noteq> comma) (comma_text nd s);
          frac = tl (dropWhile (\<lambda>c. c \<noteq> comma) (comma_text nd s))
      in real (digits_val nd whole) + real (digits_val nd frac) / 10 ^ length frac)"

section \<open>The listings table and the upsert statement\<close>

text \<open>
  A stored row has the columns that the two writers name. A cell holds the Python value
  that was written; SQL \<^verbatim>\<open>NULL\<close> is \<open>PNone\<close>. Argument encoding by the driver (a value
  whose Python type does not fit the column type) is outside the model: a listing field
  is taken to have a type that its column accepts. The surrogate key \<^verbatim>\<open>id\<close>, which
  neither statement names, is taken to be filled in by the database.

  The world outside the program is one record: whether \<^verbatim>\<open>asyncpg.connect\<close> succeeds, what
  \<^verbatim>\<open>NOW()\<close> returns, the table \<^verbatim>\<open>raw.property_listings\<close> written by
  \<^verbatim>\<open>FundaDataProcessor\<close>, the table \<^verbatim>\<open>property_listings\<close> written by
  \<^verbatim>\<open>BatchProcessor\<close>, and the log of the batches handed to \<^verbatim>\<open>executemany\<close>.
\<close>

record row =
  source :: pyval
  source_id :: pyval
  url :: pyval
  address :: pyval
  postal_code :: pyval
  city :: pyval
  price :: pyval
  size_m2 :: pyval
  rooms :: pyval
  property_type :: pyval
  listing_type :: pyval
  scraped_at :: pyval
  updated_at :: pyval

record world =
  reachable :: bool
  now :: pyval
  raw_property_listings :: "row list"
  property_listings :: "row list"
  executemany_calls :: "row list list"

text \<open>
  \<^verbatim>\<open>Index('idx_source_id', 'source', 'source_id', unique=True)\<close> and
  \<^verbatim>\<open>ON CONFLICT (source, source_id)\<close>: an incoming row conflicts with a stored row when
  both key columns are equal; a \<^verbatim>\<open>NULL\<close> never equals anything. A table satisfies the
  unique index when no two rows with non-null keys share their key.
\<close>

definition conflicts :: "row \<Rightarrow> row \<Rightarrow> bool" where
  "conflicts new old =
     (source new \<noteq> PNone \<and> source_id new \<noteq> PNone
      \<and> source old = source new \<and> source_id old = source_id new)"

definition identity :: "row \<Rightarrow> pyval \<times> pyval" where
  "identity r = (source r, source_id r)"

definition unique_source_id :: "row list \<Rightarrow> bool" where
  "unique_source_id tbl =
     distinct (map identity (filter (\<lambda>r. source r \<noteq> PNone \<and> source_id r \<noteq> PNone) tbl))"

definition rows_for :: "pyval \<Rightarrow> pyval \<Rightarrow> row list \<Rightarrow> row list" where
  "rows_for src sid tbl = filter (\<lambda>r. source r = src \<and> source_id r = sid) tbl"

text \<open>
  Modelled from the spec: the declaration of \<^verbatim>\<open>raw.property_listings\<close> is not in the
  source. The specification gives it the uniqueness constraint on
  (\<^verbatim>\<open>source\<close>, \<^verbatim>\<open>source_id\<close>) that the \<^verbatim>\<open>ON CONFLICT\<close> clause needs, and requires that a
  persisted listing always has non-null \<^verbatim>\<open>source\<close>, \<^verbatim>\<open>source_id\<close>, \<^verbatim>\<open>address\<close> and
  \<^verbatim>\<open>city\<close>.
\<close>

definition raw_not_null :: "row \<Rightarrow> bool" where
  "raw_not_null r =
     (source r \<noteq> PNone \<and> source_id r \<noteq> PNone \<and> address r \<noteq> PNone \<and> city r \<noteq> PNone)"

text \<open>
  \<^verbatim>\<open>
  INSERT INTO raw.property_listings (source, source_id, url, address, postal_code, city,
      price, size_m2, rooms, property_type, listing_type, scraped_at)
  VALUES ($1, ..., $12)
  ON CONFLICT (source, source_id)
  DO UPDATE SET price = EXCLUDED.price, scraped_at = EXCLUDED.scraped_at, updated_at = NOW()
  RETURNING (xmax = 0) AS inserted
  \<close>
  \<^verbatim>\<open>conn.execute\<close> returns the command status of the statement, not the returned row. The
  status of an \<^verbatim>\<open>INSERT\<close> is \<^verbatim>\<open>INSERT oid count\<close>, where the count is the number of rows
  inserted or updated and the oid is 0: it is \<^verbatim>\<open>INSERT 0 1\<close> for this statement whether
  the row was inserted or updated. A constraint violation raises and leaves the table as
  it was. The default of \<^verbatim>\<open>updated_at\<close> for an inserted row is not in the source; the
  model leaves the column \<^verbatim>\<open>NULL\<close> then.
\<close>

definition command_tag :: string where
  "command_tag = ''INSERT 0 1''"

definition do_update :: "pyval \<Rightarrow> row \<Rightarrow> row \<Rightarrow> row" where
  "do_update t new old =
     (if conflicts new old
      then old\<lparr>price := price new, scraped_at := scraped_at new, updated_at := t\<rparr>
      else old)"

definition execute :: "pyval \<Rightarrow> row \<Rightarrow> row list \<Rightarrow> error + (string \<times> row list)" where
  "execute t new tbl =
     (if \<not> raw_not_null new then Inl (NotNullViolation ''raw.property_listings'')
      else if \<exists>old \<in> set tbl. conflicts new old
      then Inr (command_tag, map (do_update t new) tbl)
      else Inr (command_tag, tbl @ [new]))"

section \<open>The upsert writer (\<^verbatim>\<open>FundaDataProcessor.process_and_store\<close>)\<close>

text \<open>
  \<^verbatim>\<open>
  if not listings:
      return {'inserted': 0, 'updated': 0, 'errors': 0}
  conn = await asyncpg.connect(self.database_url)
  stats = {'inserted': 0, 'updated': 0, 'errors': 0}
  try:
      for listing in listings:
          try:
              result = await conn.execute(UPSERT, listing['source'], listing['source_id'],
                  listing['url'], listing['address'], listing['postal_code'], listing['city'],
                  listing['price'], listing['size_m2'], listing['rooms'],
                  listing['property_type'], listing['listing_type'], listing['scraped_at'])
              if result == "INSERT 0 1":
                  stats['inserted'] += 1
              else:
                  stats['updated'] += 1
          except Exception as e:
              stats['errors'] += 1
  finally:
      await conn.close()
  return stats
  \<close>
  The arguments are evaluated from left to right, so the first absent key raises
  \<^verbatim>\<open>KeyError\<close> before the statement is sent.
\<close>

fun first_missing :: "listing \<Rightarrow> string list \<Rightarrow> string option" where
  "first_missing l [] = None"
| "first_missing l (k # ks) = (if l k = None then Some k else first_missing l ks)"

definition insert_columns :: "string list" where
  "insert_columns =
     [''source'', ''source_id'', ''url'', ''address'', ''postal_code'', ''city'',
      ''price'', ''size_m2'', ''rooms'', ''property_type'', ''listing_type'', ''scraped_at'']"

definition insert_row :: "listing \<Rightarrow> row" where
  "insert_row l =
     \<lparr>source = get l ''source'', source_id = get l ''source_id'', url = get l ''url'',
      address = get l ''address'', postal_code = get l ''postal_code'', city = get l ''city'',
      price = get l ''price'', size_m2 = get l ''size_m2'', rooms = get l ''rooms'',
      property_type = get l ''property_type'', listing_type = get l ''listing_type'',
      scraped_at = get l ''scraped_at'', updated_at = PNone\<rparr>"

definition insert_args :: "listing \<Rightarrow> error + row" where
  "insert_args l =
     (case first_missing l insert_columns of
        Some k \<Rightarrow> Inl (KeyError k)
      | None \<Rightarrow> Inr (insert_row l))"

record stats =
  inserted :: int
  updated :: int
  errors :: int

definition store_one :: "pyval \<Rightarrow> listing \<Rightarrow> row list \<Rightarrow> error + (string \<times> row list)" where
  "store_one t l tbl =
     (case insert_args l of Inl e \<Rightarrow> Inl e | Inr new \<Rightarrow> execute t new tbl)"

fun store_loop :: "pyval \<Rightarrow> listing list \<Rightarrow> stats \<Rightarrow> row list \<Rightarrow> stats \<times> row list" where
  "store_loop t [] st tbl = (st, tbl)"
| "store_loop t (l # ls) st tbl =
     (case store_one t l tbl of
        Inr (result, tbl') \<Rightarrow>
          if result = ''INSERT 0 1''
          then store_loop t ls (st\<lparr>inserted := inserted st + 1\<rparr>) tbl'
          else store_loop t ls (st\<lparr>updated := updated st + 1\<rparr>) tbl'
      | Inl e \<Rightarrow> store_loop t ls (st\<lparr>errors := errors st + 1\<rparr>) tbl)"

definition process_and_store :: "world \<Rightarrow> listing list \<Rightarrow> (error + stats) \<times> world" where
  "process_and_store w listings =
     (if listings = [] then (Inr \<lparr>inserted = 0, updated = 0, errors = 0\<rparr>, w)
      else if \<not> reachable w then (Inl ConnectionError, w)
      else (case store_loop (now w) listings \<lparr>inserted = 0, updated = 0, errors = 0\<rparr>
                   (raw_property_listings w) of
              (st, tbl) \<Rightarrow> (Inr st, w\<lparr>raw_property_listings := tbl\<rparr>)))"

text \<open>A listing is storable when the writer's statement for it succeeds.\<close>

definition storable :: "listing \<Rightarrow> bool" where
  "storable l = (first_missing l insert_columns = None \<and> raw_not_null (insert_row l))"

text \<open>Sample data: a reachable database with empty tables, and three listings.\<close>

definition empty_world :: world where
  "empty_world = \<lparr>reachable = True, now = PDatetime 0, raw_property_listings = [],
     property_listings = [], executemany_calls = []\<rparr>"

definition listing_a :: listing where
  "listing_a = sample_listing (PInt 450000)"

definition listing_b :: listing where
  "listing_b = (sample_listing (PInt 460000))(''scraped_at'' \<mapsto> PDatetime 2)"

definition listing_bad :: listing where
  "listing_bad = (sample_listing (PInt 300000))(''source_id'' \<mapsto> PNone)"

section \<open>The batch buffer (\<^verbatim>\<open>BatchProcessor\<close>)\<close>

text \<open>
  \<^verbatim>\<open>
  async def process_listing(self, listing):
      self.buffer.append(listing)
      if len(self.buffer) >= self.batch_size:
          await self.flush()

  async def flush(self):
      if not self.buffer:
          return
      conn = await asyncpg.connect(self.database_url)
      try:
          await conn.executemany(
              """INSERT INTO property_listings (source, source_id, url, address, postal_code,
                     city, price, size_m2, rooms, scraped_at)
                 VALUES ($1, ..., $10)
                 ON CONFLICT (source, source_id) DO UPDATE
                 SET price = EXCLUDED.price, scraped_at = EXCLUDED.scraped_at""",
              [(l['source'], l['source_id'], l['url'], l['address'], l['postal_code'],
                l['city'], l['price'], l['size_m2'], l['rooms'], l['scraped_at'])
               for l in self.buffer])
          self.buffer = []
      finally:
          await conn.close()
  \<close>
  What the database lets through for a row is a parameter \<open>accepts\<close> of the writer: the
  constraints of the table as it exists in the database, and the driver's check of each
  argument against the type of its column. A row that is not accepted makes the statement
  raise. \<^verbatim>\<open>executemany\<close> runs the statement once per argument tuple, in order, inside one
  transaction: the first failing row raises and nothing of the batch is kept. An exception
  leaves \<^verbatim>\<open>flush\<close> before \<^verbatim>\<open>self.buffer = []\<close> is reached.
\<close>

definition flush_columns :: "string list" where
  "flush_columns =
     [''source'', ''source_id'', ''url'', ''address'', ''postal_code'', ''city'',
      ''price'', ''size_m2'', ''rooms'', ''scraped_at'']"

definition flush_row :: "listing \<Rightarrow> row" where
  "flush_row l =
     \<lparr>source = get l ''source'', source_id = get l ''source_id'', url = get l ''url'',
      address = get l ''address'', postal_code = get l ''postal_code'', city = get l ''city'',
      price = get l ''price'', size_m2 = get l ''size_m2'', rooms = get l ''rooms'',
      property_type = PNone, listing_type = PNone,
      scraped_at = get l ''scraped_at'', updated_at = PNone\<rparr>"

fun flush_args :: "listing list \<Rightarrow> error + row list" where
  "flush_args [] = Inr []"
| "flush_args (l # ls) =
     (case first_missing l flush_columns of
        Some k \<Rightarrow> Inl (KeyError k)
      | None \<Rightarrow> (case flush_args ls of Inl e \<Rightarrow> Inl e | Inr rs \<Rightarrow> Inr (flush_row l # rs)))"

definition set_excluded :: "row \<Rightarrow> row \<Rightarrow> row" where
  "set_excluded new old =
     (if conflicts new old then old\<lparr>price := price new, scraped_at := scraped_at new\<rparr> else old)"

definition execute_flush :: "(row \<Rightarrow> bool) \<Rightarrow> row \<Rightarrow> row list \<Rightarrow> error + row list" where
  "execute_flush accepts new tbl =
     (if \<not> accepts new then Inl DatabaseError
      else if \<exists>old \<in> set tbl. conflicts new old then Inr (map (set_excluded new) tbl)
      else Inr (tbl @ [new]))"

fun executemany :: "(row \<Rightarrow> bool) \<Rightarrow> row list \<Rightarrow> row list \<Rightarrow> error + row list" where
  "executemany accepts [] tbl = Inr tbl"
| "executemany accepts (r # rs) tbl =
     (case execute_flush accepts r tbl of
        Inl e \<Rightarrow> Inl e
      | Inr tbl' \<Rightarrow> executemany accepts rs tbl')"

record batch_processor =
  batch_size :: int
  buffer :: "listing list"

definition flush ::
  "(row \<Rightarrow> bool) \<Rightarrow> batch_processor \<Rightarrow> world \<Rightarrow> (error + unit) \<times> batch_processor \<times> world"
  where
  "flush accepts bp w =
     (if buffer bp = [] then (Inr (), bp, w)
      else if \<not> reachable w then (Inl ConnectionError, bp, w)
      else (case flush_args (buffer bp) of
              Inl e \<Rightarrow> (Inl e, bp, w)
            | Inr rs \<Rightarrow>
                (case executemany accepts rs (property_listings w) of
                   Inl e \<Rightarrow> (Inl e, bp, w\<lparr>executemany_calls := executemany_calls w @ [rs]\<rparr>)
                 | Inr tbl \<Rightarrow>
                     (Inr (), bp\<lparr>buffer := []\<rparr>,
                      w\<lparr>property_listings := tbl,
                        executemany_calls := executemany_calls w @ [rs]\<rparr>))))"

definition process_listing ::
  "(row \<Rightarrow> bool) \<Rightarrow> batch_processor \<Rightarrow> world \<Rightarrow> listing
    \<Rightarrow> (error + unit) \<times> batch_processor \<times> world" where
  "process_listing accepts bp w l =
     (let bp' = bp\<lparr>buffer := buffer bp @ [l]\<rparr>
      in if int (length (buffer bp')) \<ge> batch_size bp' then flush accepts bp' w
         else (Inr (), bp', w))"

text \<open>
  The caller's loop (\<^verbatim>\<open>for listing in listings: await processor.process_listing(listing)\<close>
  in \<^verbatim>\<open>run_funda_scraper\<close>): an exception ends it.
\<close>

fun process_listings ::
  "(row \<Rightarrow> bool) \<Rightarrow> batch_processor \<Rightarrow> world \<Rightarrow> listing list
    \<Rightarrow> (error + unit) \<times> batch_processor \<times> world" where
  "process_listings accepts bp w [] = (Inr (), bp, w)"
| "process_listings accepts bp w (l # ls) =
     (case process_listing accepts bp w l of
        (Inl e, bp', w') \<Rightarrow> (Inl e, bp', w')
      | (Inr u, bp', w') \<Rightarrow> process_listings accepts bp' w' ls)"

text \<open>
  The table \<^verbatim>\<open>property_listings\<close> as \<^verbatim>\<open>schema.py\<close> declares it:
  \<^verbatim>\<open>
  id = Column(UUID(as_uuid=True), primary_key=True, default=uuid.uuid4)
  source = Column(String, nullable=False)
  source_id = Column(String, nullable=False)
  address = Column(String, nullable=False)
  postal_code = Column(String, nullable=False)
  city = Column(String, nullable=False)
  \<close>
  The default of \<^verbatim>\<open>id\<close> is applied by SQLAlchemy, not by the database, and the statement
  of \<^verbatim>\<open>flush\<close> does not name \<^verbatim>\<open>id\<close>: a column that the statement does not name is
  \<^verbatim>\<open>NULL\<close> for the declared table. \<open>declared_accepts\<close> is the declared table, which
  therefore accepts no row of \<^verbatim>\<open>flush\<close>; \<open>keyed_accepts\<close> is a table that differs from
  it by filling in \<^verbatim>\<open>id\<close> itself.
\<close>

definition column :: "row \<Rightarrow> string \<Rightarrow> pyval" where
  "column r c =
     (if c = ''source'' then source r else if c = ''source_id'' then source_id r
      else if c = ''url'' then url r else if c = ''address'' then address r
      else if c = ''postal_code'' then postal_code r else if c = ''city'' then city r
      else if c = ''price'' then price r else if c = ''size_m2'' then size_m2 r
      else if c = ''rooms'' then rooms r else if c = ''property_type'' then property_type r
      else if c = ''listing_type'' then listing_type r
      else if c = ''scraped_at'' then scraped_at r else PNone)"

definition declared_not_null :: "string list" where
  "declared_not_null =
     [''id'', ''source'', ''source_id'', ''address'', ''postal_code'', ''city'']"

definition declared_accepts :: "row \<Rightarrow> bool" where
  "declared_accepts r = list_all (\<lambda>c. column r c \<noteq> PNone) declared_not_null"

definition keyed_accepts :: "row \<Rightarrow> bool" where
  "keyed_accepts r = list_all (\<lambda>c. column r c \<noteq> PNone) (remove1 ''id'' declared_not_null)"

text \<open>
  For stating the results: a listing that \<^verbatim>\<open>flush\<close> can write, the consecutive full
  chunks of a list, a fresh processor, listings numbered by their \<^verbatim>\<open>source_id\<close>, and a
  listing as \<^verbatim>\<open>FundaScraper.parse_search_page\<close> builds it (its \<^verbatim>\<open>extract_postal_code\<close>
  and \<^verbatim>\<open>extract_property_type\<close> return \<^verbatim>\<open>None\<close>).
\<close>

definition flushable :: "(row \<Rightarrow> bool) \<Rightarrow> listing \<Rightarrow> bool" where
  "flushable accepts l = (first_missing l flush_columns = None \<and> accepts (flush_row l))"

fun full_chunks :: "nat \<Rightarrow> 'a list \<Rightarrow> 'a list list" where
  "full_chunks n xs =
     (if n = 0 \<or> length xs < n then [] else take n xs # full_chunks n (drop n xs))"

declare full_chunks.simps [simp del]

definition new_processor :: "int \<Rightarrow> batch_processor" where
  "new_processor n = \<lparr>batch_size = n, buffer = []\<rparr>"

definition numbered_listing :: "nat \<Rightarrow> listing" where
  "numbered_listing i =
     (sample_listing (PInt 450000))(''source_id'' \<mapsto> PStr (replicate (Suc i) CHR ''x''))"

definition scraped_listing :: listing where
  "scraped_listing =
     [''source'' \<mapsto> PStr ''funda'', ''source_id'' \<mapsto> PStr ''42'',
      ''url'' \<mapsto> PStr ''/koop/42/'', ''address'' \<mapsto> PStr ''Dam 1'',
      ''postal_code'' \<mapsto> PNone, ''city'' \<mapsto> PStr ''Amsterdam'',
      ''price'' \<mapsto> PFloat 425000, ''size_m2'' \<mapsto> PInt 85, ''rooms'' \<mapsto> PInt 3,
      ''property_type'' \<mapsto> PNone, ''listed_date'' \<mapsto> PDatetime 1,
      ''scraped_at'' \<mapsto> PDatetime 1]"

section \<open>The fallback collector (\<^verbatim>\<open>CBSRealEstateCollector\<close>)\<close>

text \<open>
  The collector returns a pandas \<^verbatim>\<open>DataFrame\<close> built from a list of dictionaries; the model
  keeps the list of dictionaries, and \<^verbatim>\<open>df.empty\<close> is the empty list.

  The CBS service is outside the program. A request either gets a reply with a status and
  a body, or raises (time-out, connection error). The body of the data request is the
  list under \<^verbatim>\<open>'value'\<close> of its JSON, each record with its optional \<^verbatim>\<open>RegioS\<close> and
  \<^verbatim>\<open>Perioden\<close>, or \<open>None\<close> when \<^verbatim>\<open>response.json()\<close> raises.

  The run-time values that the mock generator reads are parameters: the clock, Python's
  per-process string \<^verbatim>\<open>hash\<close>, and the floating-point expression
  \<^verbatim>\<open>int(base_price * (1 + ((2023 - year) * 0.05)))\<close> as a function of \<^verbatim>\<open>base_price\<close> and
  \<^verbatim>\<open>year\<close>.
\<close>

type_synonym dataframe = "listing list"

type_synonym cbs_json = "(string option \<times> string option) list"

datatype reply = Status nat "cbs_json option" | NoReply

record cbs_api =
  probe_reply :: reply
  data_reply :: reply

record runtime =
  clock :: pyval
  py_hash :: "string \<Rightarrow> int"
  float_scale :: "int \<Rightarrow> int \<Rightarrow> int"

text \<open>
  \<^verbatim>\<open>
  async def test_api_connection(self) -> bool:
      try:
          async with self.session.get(test_url) as response:
              if response.status == 200: return True
              else: return False
      except Exception as e:
          return False
  \<close>
\<close>

definition test_api_connection :: "cbs_api \<Rightarrow> bool" where
  "test_api_connection api =
     (case probe_reply api of Status st body \<Rightarrow> st = 200 | NoReply \<Rightarrow> False)"

text \<open>
  \<^verbatim>\<open>
  try:
      async with self.session.get(url, params=params) as response:
          if response.status == 200:
              data = await response.json()
              records = data.get('value', [])
              processed = []
              for record in records:
                  processed.append({'region': record.get('RegioS', 'Unknown'),
                                    'period': record.get('Perioden', 'Unknown'),
                                    'source': 'cbs_test', 'collected_at': datetime.now()})
              return pd.DataFrame(processed)
          elif response.status == 404:
              return pd.DataFrame()
          else:
              return pd.DataFrame()
  except aiohttp.ClientTimeout:
      return pd.DataFrame()
  except Exception as e:
      return pd.DataFrame()
  \<close>
  \<^verbatim>\<open>aiohttp.ClientTimeout\<close> is a configuration class, not an exception class: when an
  exception reaches the first \<^verbatim>\<open>except\<close> clause, matching against it raises \<^verbatim>\<open>TypeError\<close>,
  which leaves the function. The caller catches it.
\<close>

definition processed :: "runtime \<Rightarrow> string option \<times> string option \<Rightarrow> listing" where
  "processed rt record =
     [''region'' \<mapsto> PStr (case fst record of None \<Rightarrow> ''Unknown'' | Some v \<Rightarrow> v),
      ''period'' \<mapsto> PStr (case snd record of None \<Rightarrow> ''Unknown'' | Some v \<Rightarrow> v),
      ''source'' \<mapsto> PStr ''cbs_test'',
      ''collected_at'' \<mapsto> clock rt]"

definition fetch_sample_house_data :: "runtime \<Rightarrow> cbs_api \<Rightarrow> error + dataframe" where
  "fetch_sample_house_data rt api =
     (case data_reply api of
        NoReply \<Rightarrow> Inl TypeError
      | Status st body \<Rightarrow>
          if st = 200 then
            (case body of
               None \<Rightarrow> Inl TypeError
             | Some records \<Rightarrow> Inr (map (processed rt) records))
          else Inr [])"

text \<open>
  \<^verbatim>\<open>
  regions = ['Amsterdam', 'Rotterdam', 'Utrecht', 'Den Haag', 'Eindhoven']
  periods = ['2023JJ00', '2022JJ00', '2021JJ00', '2020JJ00']
  mock_data = []
  for region in regions:
      for period in periods:
          base_price = base_prices.get(region, 300000)
          year = int(period[:4])
          growth_factor = 1 + ((2023 - year) * 0.05)
          avg_price = int(base_price * growth_factor)
          mock_data.append({'region': region, 'period': period, 'avg_sale_price': avg_price,
              'transaction_count': 1200 + (hash(region + period) % 800),
              'source': 'cbs_mock', 'collected_at': datetime.now(), 'note': '...'})
  return pd.DataFrame(mock_data)
  \<close>
  The first four characters of every period are digits, so \<^verbatim>\<open>int(period[:4])\<close> does not
  raise.
\<close>

definition regions :: "string list" where
  "regions = [''Amsterdam'', ''Rotterdam'', ''Utrecht'', ''Den Haag'', ''Eindhoven'']"

definition periods :: "string list" where
  "periods = [''2023JJ00'', ''2022JJ00'', ''2021JJ00'', ''2020JJ00'']"

definition base_prices :: "string \<rightharpoonup> int" where
  "base_prices =
     [''Amsterdam'' \<mapsto> 450000, ''Rotterdam'' \<mapsto> 300000, ''Utrecht'' \<mapsto> 380000,
      ''Den Haag'' \<mapsto> 350000, ''Eindhoven'' \<mapsto> 280000]"

text \<open>
  \<^verbatim>\<open>int(period[:4])\<close> on the period codes of this module, whose first four characters are
  ASCII digits.
\<close>

definition digit_val :: "char \<Rightarrow> nat" where
  "digit_val c = of_char c - 48"

definition dec_val :: "string \<Rightarrow> nat" where
  "dec_val s = foldl (\<lambda>n c. 10 * n + digit_val c) 0 s"

definition mock_record :: "runtime \<Rightarrow> string \<Rightarrow> string \<Rightarrow> listing" where
  "mock_record rt region period =
     (let base_price = (case base_prices region of None \<Rightarrow> 300000 | Some v \<Rightarrow> v);
          year = int (dec_val (take 4 period));
          avg_price = float_scale rt base_price year
      in [''region'' \<mapsto> PStr region,
          ''period'' \<mapsto> PStr period,
          ''avg_sale_price'' \<mapsto> PInt avg_price,
          ''transaction_count'' \<mapsto> PInt (1200 + py_hash rt (region @ period) mod 800),
          ''source'' \<mapsto> PStr ''cbs_mock'',
          ''collected_at'' \<mapsto> clock rt,
          ''note'' \<mapsto> PStr ''Generated for development - replace with real CBS data''])"

definition generate_mock_cbs_data :: "runtime \<Rightarrow> dataframe" where
  "generate_mock_cbs_data rt =
     concat (map (\<lambda>region. map (\<lambda>period. mock_record rt region period) periods) regions)"

text \<open>
  \<^verbatim>\<open>
  api_available = await self.test_api_connection()
  if api_available:
      try:
          real_data = await self.fetch_sample_house_data()
          if not real_data.empty:
              return real_data
          else:
              return await self.generate_mock_cbs_data()
      except Exception as e:
          return await self.generate_mock_cbs_data()
  else:
      return await self.generate_mock_cbs_data()
  \<close>
\<close>

definition collect_cbs_data_with_fallback :: "runtime \<Rightarrow> cbs_api \<Rightarrow> dataframe" where
  "collect_cbs_data_with_fallback rt api =
     (if test_api_connection api then
        (case fetch_sample_house_data rt api of
           Inr real_data \<Rightarrow>
             if real_data \<noteq> [] then real_data else generate_mock_cbs_data rt
         | Inl e \<Rightarrow> generate_mock_cbs_data rt)
      else generate_mock_cbs_data rt)"

text \<open>
  What the caller reads to tell where the data came from
  (\<^verbatim>\<open>cbs_data.iloc[0]['source'] if not cbs_data.empty else 'none'\<close> in \<^verbatim>\<open>collect_cbs_data\<close>),
  and the one situation in which the service delivers records.
\<close>

definition data_source :: "dataframe \<Rightarrow> pyval" where
  "data_source cbs_data = (case cbs_data of [] \<Rightarrow> PStr ''none'' | r # rs \<Rightarrow> get r ''source'')"

definition real_data_returned :: "cbs_api \<Rightarrow> bool" where
  "real_data_returned api =
     (\<exists>b1 records. probe_reply api = Status 200 b1 \<and> data_reply api = Status 200 (Some records)
        \<and> records \<noteq> [])"

definition sample_runtime :: runtime where
  "sample_runtime = \<lparr>clock = PDatetime 0, py_hash = (\<lambda>s. int (length s)),
     float_scale = (\<lambda>base_price year. base_price)\<rparr>"

definition rate_limited_api :: cbs_api where
  "rate_limited_api = \<lparr>probe_reply = Status 429 None, data_reply = Status 429 None\<rparr>"

definition working_api :: cbs_api where
  "working_api = \<lparr>probe_reply = Status 200 None,
     data_reply = Status 200 (Some [(Some ''GM0363'', Some ''2023JJ00'')])\<rparr>"

section \<open>The city scrape (\<^verbatim>\<open>EnhancedFundaScraper.scrape_city_listings\<close>)\<close>

text \<open>
  The site is outside the program: it is a function from the page number and the number
  of the attempt to what the request gets, a response with status and HTML, or no response.
  \<^verbatim>\<open>
  @retry(stop=stop_after_attempt(3), wait=wait_exponential(multiplier=1, min=4, max=10))
  async def fetch_page(self, url):
      async with self.session.get(url) as response:
          if response.status == 429:
              raise aiohttp.ClientError("Rate limited")
          response.raise_for_status()
          html = await response.text()
          return html
  \<close>
  \<^verbatim>\<open>raise_for_status\<close> raises for a status of 400 and above. The decorator runs the body up
  to three times and raises \<^verbatim>\<open>RetryError\<close> when every attempt raised.
\<close>

datatype response = Response nat string | Unreachable

definition get_once :: "response \<Rightarrow> error + string" where
  "get_once r =
     (case r of
        Unreachable \<Rightarrow> Inl ClientError
      | Response status html \<Rightarrow>
          if status = 429 then Inl ClientError
          else if status \<ge> 400 then Inl (ClientResponseError status)
          else Inr html)"

fun retry :: "nat \<Rightarrow> (nat \<Rightarrow> response) \<Rightarrow> nat \<Rightarrow> error + string" where
  "retry 0 answers attempt = Inl RetryError"
| "retry (Suc n) answers attempt =
     (case get_once (answers attempt) of
        Inr html \<Rightarrow> Inr html
      | Inl e \<Rightarrow> retry n answers (Suc attempt))"

definition fetch_page :: "(nat \<Rightarrow> response) \<Rightarrow> error + string" where
  "fetch_page answers = retry 3 answers 0"

text \<open>
  \<^verbatim>\<open>
  all_listings = []
  for page in range(1, max_pages + 1):
      try:
          html = await self.fetch_page(url)
          listings = self.parse_search_page(html, city)
          if not listings:
              break
          all_listings.extend(listings)
      except Exception as e:
          logger.error(f"Error on page {page}: {e}")
          continue
  return all_listings
  \<close>
  \<^verbatim>\<open>parse_search_page\<close> (the HTML parser) is a parameter; it returns the empty list when no
  selector matches the page.
\<close>

definition page_listings ::
  "(nat \<Rightarrow> nat \<Rightarrow> response) \<Rightarrow> (string \<Rightarrow> error + listing list) \<Rightarrow> nat \<Rightarrow> error + listing list"
  where
  "page_listings site parse_search_page page =
     (case fetch_page (site page) of
        Inl e \<Rightarrow> Inl e
      | Inr html \<Rightarrow> parse_search_page html)"

fun scrape_pages ::
  "(nat \<Rightarrow> nat \<Rightarrow> response) \<Rightarrow> (string \<Rightarrow> error + listing list) \<Rightarrow> nat list
    \<Rightarrow> listing list \<Rightarrow> listing list" where
  "scrape_pages site parse_search_page [] all_listings = all_listings"
| "scrape_pages site parse_search_page (page # pages) all_listings =
     (case page_listings site parse_search_page page of
        Inl e \<Rightarrow> scrape_pages site parse_search_page pages all_listings
      | Inr listings \<Rightarrow>
          if listings = [] then all_listings
          else scrape_pages site parse_search_page pages (all_listings @ listings))"

definition scrape_city_listings ::
  "(nat \<Rightarrow> nat \<Rightarrow> response) \<Rightarrow> (string \<Rightarrow> error + listing list) \<Rightarrow> int \<Rightarrow> listing list" where
  "scrape_city_listings site parse_search_page max_pages =
     scrape_pages site parse_search_page [1..<nat (max_pages + 1)] []"

text \<open>
  For stating the results: what a page contributes, and a site whose second page answers
  404 on every attempt.
\<close>

definition collected :: "error + listing list \<Rightarrow> listing list" where
  "collected r = (case r of Inl e \<Rightarrow> [] | Inr listings \<Rightarrow> listings)"

definition sample_site :: "nat \<Rightarrow> nat \<Rightarrow> response" where
  "sample_site page attempt =
     (if page = 1 then Response 200 ''first''
      else if page = 2 then Response 404 ''missing''
      else if page = 3 then Response 200 ''third''
      else Response 200 ''nothing'')"

definition sample_parse :: "string \<Rightarrow> error + listing list" where
  "sample_parse html =
     (if html = ''first'' then Inr [listing_a]
      else if html = ''third'' then Inr [listing_b]
      else Inr [])"

section \<open>Validator: results\<close>

lemma required_loop_iff:
  "required_loop l required_fields \<longleftrightarrow>
     truthy (get l ''source_id'') \<and> truthy (get l ''address'') \<and> truthy (get l ''city'')"
  by (simp add: required_fields_def)

lemma price_outlier_number:
  "number_of p = Some r \<Longrightarrow> price_outlier p = Inr (r < 50000 \<or> r > 5000000)"
  by (cases p) (auto simp: price_outlier_def split: sum.splits bool.splits)

lemma price_outlier_other:
  "number_of p = None \<Longrightarrow> price_outlier p = Inl TypeError"
  by (cases p) (auto simp: price_outlier_def)

lemma get_sample_listing:
  "get (sample_listing p) ''source_id'' = PStr ''42''"
  "get (sample_listing p) ''address'' = PStr ''Dam 1''"
  "get (sample_listing p) ''city'' = PStr ''amsterdam''"
  "get (sample_listing p) ''price'' = p"
  "get (sample_listing p) ''size_m2'' = PNone"
  "get ((sample_listing p)(''city'' := None)) ''city'' = PNone"
  by (simp_all add: get_def sample_listing_def)

text \<open>
  C4 (as stated): \<^verbatim>\<open>validate_listing\<close> returns true exactly when the three identity fields
  are present and the price, when present, is within 50,000 .. 5,000,000. This fails on the
  code: a listing with all identity fields and the present price 0 is accepted.
\<close>

theorem validate_listing_spec_counterexample:
  "\<not> (validate_listing (sample_listing (PInt 0)) = Inr True
        \<longleftrightarrow> validate_spec (sample_listing (PInt 0)))"
  by (simp add: validate_listing_def validate_spec_def present_def required_loop_iff
      get_sample_listing)

text \<open>
  C4 (amended): \<^verbatim>\<open>validate_listing\<close> returns true exactly when \<^verbatim>\<open>source_id\<close>,
  \<^verbatim>\<open>address\<close> and \<^verbatim>\<open>city\<close> are all truthy (present, not \<^verbatim>\<open>None\<close>, not empty) and the
  price is either falsy (absent, \<^verbatim>\<open>None\<close>, zero or empty) or a number that is neither below
  50,000 nor above 5,000,000.
\<close>

theorem validate_listing_iff:
  "validate_listing l = Inr True \<longleftrightarrow>
     truthy (get l ''source_id'') \<and> truthy (get l ''address'') \<and> truthy (get l ''city'') \<and>
     (\<not> truthy (get l ''price'') \<or>
      (\<exists>r. number_of (get l ''price'') = Some r \<and> 50000 \<le> r \<and> r \<le> 5000000))"
proof (cases "number_of (get l ''price'')")
  case None
  then show ?thesis
    by (auto simp: validate_listing_def required_loop_iff Let_def price_outlier_other)
next
  case (Some r)
  then show ?thesis
    by (auto simp: validate_listing_def required_loop_iff Let_def price_outlier_number
        split: bool.splits)
qed

theorem validate_listing_iff_witness:
  "validate_listing (sample_listing (PInt 50001)) = Inr True
   \<and> validate_listing (sample_listing (PInt 49999)) \<noteq> Inr True
   \<and> validate_listing (sample_listing (PInt 5000001)) \<noteq> Inr True
   \<and> validate_listing (sample_listing PNone) = Inr True
   \<and> validate_listing ((sample_listing PNone)(''city'' := None)) \<noteq> Inr True"
  using validate_listing_iff [of "sample_listing (PInt 50001)"]
    validate_listing_iff [of "sample_listing (PInt 49999)"]
    validate_listing_iff [of "sample_listing (PInt 5000001)"]
    validate_listing_iff [of "sample_listing PNone"]
    validate_listing_iff [of "(sample_listing PNone)(''city'' := None)"]
  by (simp add: get_sample_listing)

text \<open>
  C10 (as stated): a listing whose price is 0 passes validation whenever its identity
  fields are present. This fails on the code: the identity fields are tested by truth
  value as well, so a listing whose \<^verbatim>\<open>address\<close> is the empty string (present, not
  \<^verbatim>\<open>None\<close>) and whose price is 0 is rejected.
\<close>

theorem validate_listing_zero_price_counterexample:
  "present ((sample_listing (PInt 0))(''address'' \<mapsto> PStr [])) ''source_id''
   \<and> present ((sample_listing (PInt 0))(''address'' \<mapsto> PStr [])) ''address''
   \<and> present ((sample_listing (PInt 0))(''address'' \<mapsto> PStr [])) ''city''
   \<and> get ((sample_listing (PInt 0))(''address'' \<mapsto> PStr [])) ''price'' = PInt 0
   \<and> validate_listing ((sample_listing (PInt 0))(''address'' \<mapsto> PStr [])) = Inr False"
  by (simp add: present_def validate_listing_def required_fields_def get_def sample_listing_def)

text \<open>
  C10 (amended): the price check first tests the truth value of the price, so a falsy
  price (0, 0.0, \<^verbatim>\<open>None\<close>, absent or the empty string) skips the plausibility-range
  check entirely, although 0 is below the lower bound of 50,000: such a listing passes
  validation exactly when \<^verbatim>\<open>source_id\<close>, \<^verbatim>\<open>address\<close> and \<^verbatim>\<open>city\<close> are all truthy
  (present, not \<^verbatim>\<open>None\<close> and not empty).
\<close>

theorem validate_listing_zero_price:
  assumes "\<not> truthy (get l ''price'')"
  shows "validate_listing l
           = Inr (truthy (get l ''source_id'') \<and> truthy (get l ''address'')
                  \<and> truthy (get l ''city''))"
  using assms by (auto simp: validate_listing_def required_loop_iff Let_def)

theorem validate_listing_zero_price_witness:
  "validate_listing (sample_listing (PInt 0)) = Inr True
   \<and> validate_listing (sample_listing (PFloat 0)) = Inr True
   \<and> validate_listing (sample_listing (PStr [])) = Inr True
   \<and> validate_listing ((sample_listing (PInt 0))(''city'' := None)) = Inr False"
  using validate_listing_zero_price [of "sample_listing (PInt 0)"]
    validate_listing_zero_price [of "sample_listing (PFloat 0)"]
    validate_listing_zero_price [of "sample_listing (PStr [])"]
    validate_listing_zero_price [of "(sample_listing (PInt 0))(''city'' := None)"]
  by (simp add: get_sample_listing get_def sample_listing_def)

section \<open>Price parsers: results\<close>

lemmas eval_defs = codepoints_def is_digit_def decimal_def is_space_def
      py_float_def float_from_string_inner_def strip_with_def ascii_space_def lower_def
      float_literal_def ascii_digit_def ascii_val_def Let_def

lemma replace_single_empty: "replace [x] [] s = filter (\<lambda>c. c \<noteq> x) s"
  by (induction s) auto

lemma replace_single: "replace [x] [y] s = map (\<lambda>c. if c = x then y else c) s"
  by (induction s) auto

lemma is_digit_simps [simp]: "\<not> is_digit nd dot" "\<not> is_digit nd comma"
  by (simp_all add: is_digit_def decimal_def)

lemma length_split_on: "length (split_on sep s) = count_list s sep + 1"
  by (induction s) (auto split: list.splits)

lemma split_on_not_Nil [simp]: "split_on sep s \<noteq> []"
  by (induction s) (auto split: list.splits)

lemma split_on_no_sep: "sep \<notin> set s \<Longrightarrow> split_on sep s = [s]"
  by (induction s) auto

lemma split_on_second:
  "count_list s sep = 1 \<Longrightarrow> split_on sep s ! 1 = tl (dropWhile (\<lambda>c. c \<noteq> sep) s)"
proof (induction s)
  case Nil
  then show ?case by simp
next
  case (Cons c cs)
  show ?case
  proof (cases "c = sep")
    case True
    with Cons.prems have "sep \<notin> set cs"
      by (simp add: count_list_0_iff)
    with True show ?thesis by (simp add: split_on_no_sep)
  next
    case False
    with Cons.prems have "count_list cs sep = 1" by simp
    from Cons.IH [OF this] False show ?thesis
      by (cases "split_on sep cs") simp_all
  qed
qed

text \<open>What \<^verbatim>\<open>float\<close> sees of a digit or a dot.\<close>

lemma to_ascii_digit:
  assumes "is_digit nd c"
  shows "ascii_digit (to_ascii nd c)"
    and "to_ascii nd c - 48 = (case decimal nd c of Some d \<Rightarrow> d | None \<Rightarrow> 0)"
  using assms
  by (auto simp: is_digit_def decimal_def to_ascii_def ascii_digit_def
      split: if_splits option.splits)

lemma to_ascii_dot [simp]: "to_ascii nd dot = dot"
  by (simp add: to_ascii_def)

lemma to_ascii_eq_dot:
  "is_digit nd c \<or> c = dot \<Longrightarrow> to_ascii nd c = dot \<longleftrightarrow> c = dot"
  using to_ascii_digit(1) [of nd c] by (auto simp: ascii_digit_def)

lemma ascii_digit_to_ascii:
  "is_digit nd c \<or> c = dot \<Longrightarrow> ascii_digit (to_ascii nd c) \<longleftrightarrow> is_digit nd c"
  using to_ascii_digit(1) [of nd c] by (auto simp: ascii_digit_def)

lemma ascii_val_to_ascii:
  "\<forall>c \<in> set ds. is_digit nd c \<Longrightarrow> ascii_val (map (to_ascii nd) ds) = digits_val nd ds"
proof -
  have "\<forall>c \<in> set ds. is_digit nd c \<Longrightarrow>
      foldl (\<lambda>n c. 10 * n + (c - 48)) k (map (to_ascii nd) ds)
        = foldl (\<lambda>n c. 10 * n + (case decimal nd c of Some d \<Rightarrow> d | None \<Rightarrow> 0)) k ds" for k
    by (induction ds arbitrary: k) (simp_all add: to_ascii_digit(2))
  then show "\<forall>c \<in> set ds. is_digit nd c \<Longrightarrow> ?thesis"
    by (simp add: ascii_val_def digits_val_def)
qed

lemma takeWhile_map_dot:
  "\<forall>c \<in> set p. f c = dot \<longleftrightarrow> c = dot \<Longrightarrow>
   takeWhile (\<lambda>c. c \<noteq> dot) (map f p) = map f (takeWhile (\<lambda>c. c \<noteq> dot) p)"
  by (induction p) auto

lemma dropWhile_map_dot:
  "\<forall>c \<in> set p. f c = dot \<longleftrightarrow> c = dot \<Longrightarrow>
   dropWhile (\<lambda>c. c \<noteq> dot) (map f p) = map f (dropWhile (\<lambda>c. c \<noteq> dot) p)"
  by (induction p) auto

lemma count_map_dot:
  "\<forall>c \<in> set p. f c = dot \<longleftrightarrow> c = dot \<Longrightarrow> count_list (map f p) dot = count_list p dot"
  by (induction p) auto

lemma transform_map:
  "\<forall>c \<in> set s. ascii_digit (to_ascii nd c) \<or> to_ascii nd c = dot \<Longrightarrow>
   transform nd s = map (to_ascii nd) s"
  by (induction s)
    (auto simp: to_ascii_def ascii_digit_def split: if_splits option.splits)

lemma dropWhile_none: "\<forall>c \<in> set b. \<not> P c \<Longrightarrow> dropWhile P b = b"
  by (cases b) auto

lemma strip_with_none: "\<forall>c \<in> set b. \<not> sp c \<Longrightarrow> strip_with sp b = b"
  by (simp add: strip_with_def dropWhile_none)

lemma py_float_plain:
  assumes "\<forall>c \<in> set (map (to_ascii nd) s). ascii_digit c \<or> c = dot"
  shows "py_float fl nd s =
           (case float_literal (map (to_ascii nd) s) of
              None \<Rightarrow> Inl ValueError
            | Some m \<Rightarrow> Inr (rounded fl False m))"
proof -
  define b where "b = map (to_ascii nd) s"
  have tr: "transform nd s = b"
    unfolding b_def by (rule transform_map) (use assms in simp)
  have el: "(48 \<le> c \<and> c \<le> 57) \<or> c = dot" if "c \<in> set b" for c
    using assms that by (auto simp: ascii_digit_def b_def)
  have strip: "strip_with ascii_space b = b"
  proof (rule strip_with_none, rule ballI)
    fix c assume "c \<in> set b"
    from el [OF this] show "\<not> ascii_space c" by (auto simp: ascii_space_def)
  qed
  have hd: "b \<noteq> [] \<Longrightarrow> hd b \<noteq> 45 \<and> hd b \<noteq> 43"
    using el [of "hd b"] by (cases b) auto
  have low: "map lower b = b"
  proof (rule map_idI)
    fix c assume "c \<in> set b"
    from el [OF this] show "lower c = c" by (auto simp: lower_def)
  qed
  have noword: "b \<noteq> codepoints ''inf''" "b \<noteq> codepoints ''infinity''"
    "b \<noteq> codepoints ''nan''"
    using el [of 105] el [of 110] by (auto simp: codepoints_def)
  have nous: "95 \<notin> set b"
    using el [of 95] by auto
  have nosign: "\<not> (b \<noteq> [] \<and> (hd b = 45 \<or> hd b = 43))"
    using hd by blast
  have noneg: "(b \<noteq> [] \<and> hd b = 45) = False"
    using hd by blast
  have "float_from_string_inner fl b =
           (case float_literal b of None \<Rightarrow> Inl ValueError | Some m \<Rightarrow> Inr (rounded fl False m))"
    unfolding float_from_string_inner_def Let_def strip if_not_P [OF nosign] low noneg
    using noword by simp
  then have "py_float fl nd s =
           (case float_literal b of None \<Rightarrow> Inl ValueError | Some m \<Rightarrow> Inr (rounded fl False m))"
    unfolding py_float_def Let_def tr if_not_P [OF nous] .
  then show ?thesis by (simp add: b_def)
qed

lemma float_literal_digits_dots:
  assumes "\<forall>c \<in> set b. ascii_digit c \<or> c = dot"
  shows "float_literal b =
           (if count_list b dot \<le> 1 \<and> (\<exists>c \<in> set b. ascii_digit c)
            then Some (real (ascii_val (takeWhile (\<lambda>c. c \<noteq> dot) b))
                       + real (ascii_val (tl (dropWhile (\<lambda>c. c \<noteq> dot) b)))
                         / 10 ^ length (tl (dropWhile (\<lambda>c. c \<noteq> dot) b)))
            else None)"
proof -
  let ?ip = "takeWhile (\<lambda>c. c \<noteq> dot) b"
  let ?fp = "tl (dropWhile (\<lambda>c. c \<noteq> dot) b)"
  have el: "(48 \<le> c \<and> c \<le> 57) \<or> c = dot" if "c \<in> set b" for c
    using assms that by (auto simp: ascii_digit_def)
  have noe: "\<forall>c \<in> set b. c \<noteq> 101 \<and> c \<noteq> 69"
    using el by fastforce
  then have mant: "takeWhile (\<lambda>c. c \<noteq> 101 \<and> c \<noteq> 69) b = b"
    "dropWhile (\<lambda>c. c \<noteq> 101 \<and> c \<noteq> 69) b = []"
    by (simp_all add: takeWhile_eq_all_conv)
  have ip: "list_all ascii_digit ?ip"
    unfolding list_all_iff
  proof
    fix c assume c: "c \<in> set ?ip"
    then have "c \<in> set b" "c \<noteq> dot" by (auto dest: set_takeWhileD)
    with assms show "ascii_digit c" by auto
  qed
  have fp_sub: "set ?fp \<subseteq> set b"
  proof -
    have "set (tl xs) \<subseteq> set xs" for xs :: "nat list"
      by (cases xs) auto
    then have "set ?fp \<subseteq> set (dropWhile (\<lambda>c. c \<noteq> dot) b)" .
    also have "\<dots> \<subseteq> set b"
      by (auto dest: set_dropWhileD)
    finally show ?thesis .
  qed
  have fp: "list_all ascii_digit ?fp \<longleftrightarrow> count_list b dot \<le> 1"
  proof -
    have "count_list b dot = count_list ?fp dot + (if dot \<in> set b then 1 else 0)"
      by (induction b) auto
    moreover have "dot \<notin> set b \<Longrightarrow> ?fp = []"
      by (induction b) auto
    moreover have "list_all ascii_digit ?fp \<longleftrightarrow> dot \<notin> set ?fp"
      using fp_sub assms by (auto simp: list_all_iff ascii_digit_def)
    ultimately show ?thesis
      by (cases "dot \<in> set b") (auto simp: count_list_0_iff)
  qed
  have some: "(?ip \<noteq> [] \<or> ?fp \<noteq> []) \<longleftrightarrow> (\<exists>c \<in> set b. ascii_digit c)"
    if "count_list b dot \<le> 1"
  proof
    assume "?ip \<noteq> [] \<or> ?fp \<noteq> []"
    then show "\<exists>c \<in> set b. ascii_digit c"
    proof
      assume "?ip \<noteq> []"
      then obtain c where "c \<in> set ?ip" by (cases ?ip) auto
      with ip have "ascii_digit c" "c \<in> set b"
        by (auto simp: list_all_iff dest: set_takeWhileD)
      then show ?thesis by blast
    next
      assume ne: "?fp \<noteq> []"
      then obtain c where c: "c \<in> set ?fp" by (cases ?fp) auto
      with fp that have "ascii_digit c" by (auto simp: list_all_iff)
      with c fp_sub show ?thesis by blast
    qed
  next
    assume "\<exists>c \<in> set b. ascii_digit c"
    then obtain c where c: "c \<in> set b" "ascii_digit c" by blast
    have "b = ?ip @ dropWhile (\<lambda>c. c \<noteq> dot) b" by simp
    then have "c \<in> set ?ip \<or> c \<in> set (dropWhile (\<lambda>c. c \<noteq> dot) b)"
      using c(1) by (metis Un_iff set_append)
    then show "?ip \<noteq> [] \<or> ?fp \<noteq> []"
    proof
      assume "c \<in> set ?ip" then show ?thesis by auto
    next
      assume d: "c \<in> set (dropWhile (\<lambda>c. c \<noteq> dot) b)"
      then obtain x xs where x: "dropWhile (\<lambda>c. c \<noteq> dot) b = x # xs"
        by (cases "dropWhile (\<lambda>c. c \<noteq> dot) b") auto
      then have "x = dot" using hd_dropWhile [of "\<lambda>c. c \<noteq> dot" b] by auto
      with d x c(2) have "c \<in> set xs" by (auto simp: ascii_digit_def)
      with x show ?thesis by auto
    qed
  qed
  show ?thesis
    unfolding float_literal_def Let_def mant
    using ip fp some by auto
qed

lemma py_float_digits_dots:
  assumes "\<forall>c \<in> set p. is_digit nd c \<or> c = dot"
  shows "py_float fl nd p =
           (if count_list p dot \<le> 1 \<and> (\<exists>c \<in> set p. is_digit nd c)
            then Inr (rounded fl False
                   (real (digits_val nd (takeWhile (\<lambda>c. c \<noteq> dot) p))
                    + real (digits_val nd (tl (dropWhile (\<lambda>c. c \<noteq> dot) p)))
                      / 10 ^ length (tl (dropWhile (\<lambda>c. c \<noteq> dot) p))))
            else Inl ValueError)"
proof -
  let ?f = "to_ascii nd"
  let ?b = "map ?f p"
  let ?ip = "takeWhile (\<lambda>c. c \<noteq> dot) p"
  let ?fp = "tl (dropWhile (\<lambda>c. c \<noteq> dot) p)"
  have eqdot: "\<forall>c \<in> set p. ?f c = dot \<longleftrightarrow> c = dot"
    using assms to_ascii_eq_dot by blast
  have alpha: "\<forall>c \<in> set ?b. ascii_digit c \<or> c = dot"
    using assms to_ascii_digit(1) [of nd] by auto
  have cnt: "count_list ?b dot = count_list p dot"
    by (rule count_map_dot [OF eqdot])
  have ex: "(\<exists>c \<in> set ?b. ascii_digit c) \<longleftrightarrow> (\<exists>c \<in> set p. is_digit nd c)"
    using assms ascii_digit_to_ascii [of nd] by auto
  have ipd: "\<forall>c \<in> set ?ip. is_digit nd c"
    using assms by (auto dest: set_takeWhileD)
  have ip: "ascii_val (takeWhile (\<lambda>c. c \<noteq> dot) ?b) = digits_val nd ?ip"
    by (simp add: takeWhile_map_dot [OF eqdot] ascii_val_to_ascii [OF ipd])
  have tl_map: "tl (dropWhile (\<lambda>c. c \<noteq> dot) ?b) = map ?f ?fp"
    by (simp add: dropWhile_map_dot [OF eqdot] map_tl)
  show ?thesis
  proof (cases "count_list p dot \<le> 1")
    case False
    then show ?thesis
      by (simp add: py_float_plain [OF alpha] float_literal_digits_dots [OF alpha] cnt)
  next
    case True
    have "count_list p dot = count_list ?fp dot + (if dot \<in> set p then 1 else 0)"
      by (induction p) auto
    with True have nodot: "dot \<notin> set ?fp"
      by (cases "dot \<in> set p") (auto simp: count_list_0_iff dropWhile_eq_Nil_conv)
    have "set (tl xs) \<subseteq> set xs" for xs :: "nat list"
      by (cases xs) auto
    then have "set ?fp \<subseteq> set (dropWhile (\<lambda>c. c \<noteq> dot) p)" .
    then have "set ?fp \<subseteq> set p"
      by (auto dest: set_dropWhileD)
    with assms nodot have fpd: "\<forall>c \<in> set ?fp. is_digit nd c" by auto
    have fp: "ascii_val (map ?f ?fp) = digits_val nd ?fp"
      by (rule ascii_val_to_ascii [OF fpd])
    show ?thesis
      unfolding py_float_plain [OF alpha] float_literal_digits_dots [OF alpha] cnt ex ip tl_map fp
      by simp
  qed
qed

lemma clean_step:
  "replace [dot] [] (filter (\<lambda>c. is_digit nd c \<or> c = comma \<or> c = dot) s) = comma_text nd s"
  unfolding replace_single_empty comma_text_def filter_filter
  by (rule filter_cong) auto

lemma replace_comma: "replace [comma] [dot] s = map comma_to_dot s"
  by (simp add: replace_single comma_to_dot_def [abs_def])

lemma comma_text_set: "c \<in> set (comma_text nd s) \<Longrightarrow> is_digit nd c \<or> c = comma"
  by (simp add: comma_text_def)

lemma dot_in_mapped:
  "dot \<in> set (map comma_to_dot (comma_text nd s)) \<longleftrightarrow> count_list (comma_text nd s) comma \<noteq> 0"
proof -
  have "dot \<notin> set (comma_text nd s)"
    using comma_text_set [of dot nd s] by auto
  then have "dot \<in> comma_to_dot ` set (comma_text nd s) \<longleftrightarrow> comma \<in> set (comma_text nd s)"
    by (auto simp: comma_to_dot_def image_iff split: if_splits)
  then show ?thesis by (simp add: count_list_0_iff)
qed

lemma count_mapped:
  "dot \<notin> set xs \<Longrightarrow> count_list (map comma_to_dot xs) dot = count_list xs comma"
  by (induction xs) (auto simp: comma_to_dot_def)

lemma takeWhile_mapped:
  "dot \<notin> set xs \<Longrightarrow>
   takeWhile (\<lambda>c. c \<noteq> dot) (map comma_to_dot xs) = takeWhile (\<lambda>c. c \<noteq> comma) xs"
  by (induction xs) (auto simp: comma_to_dot_def)

lemma dropWhile_mapped:
  "dot \<notin> set xs \<Longrightarrow>
   dropWhile (\<lambda>c. c \<noteq> dot) (map comma_to_dot xs)
     = map comma_to_dot (dropWhile (\<lambda>c. c \<noteq> comma) xs)"
  by (induction xs) (auto simp: comma_to_dot_def)

lemma map_comma_to_dot_id: "comma \<notin> set xs \<Longrightarrow> map comma_to_dot xs = xs"
  by (induction xs) (auto simp: comma_to_dot_def)

lemma count_one_tail:
  "count_list xs a = 1 \<Longrightarrow> a \<notin> set (tl (dropWhile (\<lambda>c. c \<noteq> a) xs))"
  by (induction xs) (auto simp: count_list_0_iff split: if_splits)

lemma filter_mapped:
  "replace [dot] [] (map comma_to_dot (comma_text nd s)) = filter (is_digit nd) s"
proof -
  have "filter (\<lambda>c. c \<noteq> dot) (map comma_to_dot (comma_text nd s))
        = map comma_to_dot (filter (\<lambda>c. c \<noteq> comma \<and> c \<noteq> dot) (comma_text nd s))"
    by (induction s) (auto simp: comma_text_def comma_to_dot_def)
  also have "filter (\<lambda>c. c \<noteq> comma \<and> c \<noteq> dot) (comma_text nd s) = filter (is_digit nd) s"
    unfolding comma_text_def filter_filter by (rule filter_cong) auto
  also have "map comma_to_dot (filter (is_digit nd) s) = filter (is_digit nd) s"
    by (rule map_comma_to_dot_id) auto
  finally show ?thesis by (simp add: replace_single_empty)
qed

lemma cleaned_alphabet:
  "\<forall>c \<in> set (map comma_to_dot (comma_text nd s)). is_digit nd c \<or> c = dot"
  using comma_text_set [of _ nd s] by (auto simp: comma_to_dot_def)

lemma py_float_digits:
  assumes "\<forall>c \<in> set d. is_digit nd c"
  shows "py_float fl nd d =
           (if d = [] then Inl ValueError else Inr (rounded fl False (real (digits_val nd d))))"
proof -
  from assms have nodot: "dot \<notin> set d" by auto
  then have tw: "takeWhile (\<lambda>c. c \<noteq> dot) d = d" "dropWhile (\<lambda>c. c \<noteq> dot) d = []"
    by (auto simp: takeWhile_eq_all_conv)
  have cnt: "count_list d dot = 0" using nodot by (simp add: count_list_0_iff)
  have ex: "(\<exists>c \<in> set d. is_digit nd c) \<longleftrightarrow> d \<noteq> []"
    using assms by (cases d) auto
  have alpha: "\<forall>c \<in> set d. is_digit nd c \<or> c = dot"
    using assms by simp
  show ?thesis
    unfolding py_float_digits_dots [OF alpha] tw cnt ex
    by (simp add: digits_val_def)
qed

lemma parse_unfold:
  "parse_price_text fl nd s =
     (let pc = map comma_to_dot (comma_text nd s);
          r = (if dot \<in> set pc then
                 (let parts = split_on dot pc in
                  if length parts = 2 \<and> length (parts ! 1) \<le> 2 then py_float fl nd pc
                  else py_float fl nd (replace [dot] [] pc))
               else py_float fl nd pc)
      in case r of
           Inr x \<Rightarrow> Inr (Some x)
         | Inl ValueError \<Rightarrow> Inr None
         | Inl AttributeError \<Rightarrow> Inr None
         | Inl e \<Rightarrow> Inl e)"
  unfolding parse_price_text_def Let_def clean_step replace_comma ..

lemma parse_price_text_decimal:
  assumes "decimal_comma_form nd s"
  shows "parse_price_text fl nd s =
           Inr (if filter (is_digit nd) s = [] then None
                else Some (rounded fl False (decimal_comma_value nd s)))"
proof -
  let ?c = "comma_text nd s"
  let ?pc = "map comma_to_dot ?c"
  have nodot: "dot \<notin> set ?c"
    using comma_text_set [of dot nd s] by auto
  from assms have cnt: "count_list ?c comma = 1"
    and len: "length (tl (dropWhile (\<lambda>c. c \<noteq> comma) ?c)) \<le> 2"
    by (simp_all add: decimal_comma_form_def)
  have cntp: "count_list ?pc dot = 1"
    using count_mapped [OF nodot] cnt by simp
  have dotin: "dot \<in> set ?pc"
    using dot_in_mapped [of nd s] cnt by simp
  have tl_eq: "tl (dropWhile (\<lambda>c. c \<noteq> dot) ?pc) = tl (dropWhile (\<lambda>c. c \<noteq> comma) ?c)"
  proof -
    have "tl (dropWhile (\<lambda>c. c \<noteq> dot) ?pc)
          = map comma_to_dot (tl (dropWhile (\<lambda>c. c \<noteq> comma) ?c))"
      by (simp add: dropWhile_mapped [OF nodot] map_tl)
    also have "\<dots> = tl (dropWhile (\<lambda>c. c \<noteq> comma) ?c)"
      by (rule map_comma_to_dot_id) (rule count_one_tail [OF cnt])
    finally show ?thesis .
  qed
  have parts: "length (split_on dot ?pc) = 2"
    "split_on dot ?pc ! 1 = tl (dropWhile (\<lambda>c. c \<noteq> comma) ?c)"
    using cntp split_on_second [OF cntp] by (simp_all add: length_split_on tl_eq)
  have dig: "(\<exists>c \<in> set ?pc. is_digit nd c) \<longleftrightarrow> filter (is_digit nd) s \<noteq> []"
  proof -
    have "(\<exists>c \<in> set ?pc. is_digit nd c) \<longleftrightarrow> (\<exists>c \<in> set ?c. is_digit nd c)"
      by (auto simp: comma_to_dot_def split: if_splits)
    also have "\<dots> \<longleftrightarrow> (\<exists>c \<in> set s. is_digit nd c)"
      by (auto simp: comma_text_def)
    finally show ?thesis by (simp add: filter_empty_conv)
  qed
  have "py_float fl nd ?pc =
          (if filter (is_digit nd) s = [] then Inl ValueError
           else Inr (rounded fl False (decimal_comma_value nd s)))"
    unfolding py_float_digits_dots [OF cleaned_alphabet] cntp dig tl_eq
      takeWhile_mapped [OF nodot]
    by (simp add: decimal_comma_value_def Let_def)
  then show ?thesis
    using dotin parts len by (simp add: parse_unfold Let_def)
qed

lemma parse_price_text_integer:
  assumes "\<not> decimal_comma_form nd s"
  shows "parse_price_text fl nd s =
           Inr (if filter (is_digit nd) s = [] then None
                else Some (rounded fl False (real (digits_val nd (filter (is_digit nd) s)))))"
proof -
  let ?c = "comma_text nd s"
  let ?pc = "map comma_to_dot ?c"
  have nodot: "dot \<notin> set ?c"
    using comma_text_set [of dot nd s] by auto
  have digits: "py_float fl nd (filter (is_digit nd) s) =
      (if filter (is_digit nd) s = [] then Inl ValueError
       else Inr (rounded fl False (real (digits_val nd (filter (is_digit nd) s)))))"
    by (rule py_float_digits) simp
  show ?thesis
  proof (cases "dot \<in> set ?pc")
    case False
    then have "count_list ?c comma = 0"
      using dot_in_mapped [of nd s] by simp
    then have nc: "comma \<notin> set ?c"
      by (simp add: count_list_0_iff)
    then have pc: "?pc = ?c" by (rule map_comma_to_dot_id)
    have "?c = filter (is_digit nd) s"
    proof -
      have "filter (\<lambda>c. c \<noteq> dot) ?c = ?c"
        using nodot by (auto simp: filter_id_conv)
      with filter_mapped [of nd s] pc show ?thesis by (simp add: replace_single_empty)
    qed
    with pc have "?pc = filter (is_digit nd) s" by simp
    with False digits show ?thesis
      unfolding parse_unfold Let_def by simp
  next
    case True
    have neg: "\<not> (length (split_on dot ?pc) = 2 \<and> length (split_on dot ?pc ! 1) \<le> 2)"
    proof
      assume h: "length (split_on dot ?pc) = 2 \<and> length (split_on dot ?pc ! 1) \<le> 2"
      then have cntp: "count_list ?pc dot = 1"
        by (simp add: length_split_on)
      then have cnt: "count_list ?c comma = 1"
        using count_mapped [OF nodot] by simp
      have "length (split_on dot ?pc ! 1) = length (tl (dropWhile (\<lambda>c. c \<noteq> comma) ?c))"
        using split_on_second [OF cntp] by (simp add: dropWhile_mapped [OF nodot])
      with h cnt have "decimal_comma_form nd s"
        by (simp add: decimal_comma_form_def)
      with assms show False by contradiction
    qed
    show ?thesis
      unfolding parse_unfold Let_def if_P [OF True] if_not_P [OF neg] filter_mapped digits
      by simp
  qed
qed

lemma parse_price_examples:
  "parse_price fl nd (euro # codepoints '' 425.000 k.k.'') = None"
  "parse_price fl nd (euro # codepoints '' 425.000'') = Some (rounded fl False 425000)"
  "parse_price fl nd (codepoints ''12.50'') = Some (rounded fl False 1250)"
  "parse_price fl nd (codepoints ''12,50'') = Some (rounded fl False 12.5)"
  "parse_price_text fl nd (codepoints ''12.50'') = Inr (Some (rounded fl False 1250))"
  "parse_price_text fl nd (codepoints ''12,50'') = Inr (Some (rounded fl False 12.5))"
  "parse_price_text fl nd (euro # codepoints '' 425.000 k.k.'') = Inr (Some (rounded fl False 425000))"
  by (simp_all add: parse_price_def parse_price_text_def eval_defs)

lemma replace_absent:
  "y \<in> set old \<Longrightarrow> y \<notin> set s \<Longrightarrow> old \<noteq> [] \<Longrightarrow> replace old new s = s"
proof (induction old new s rule: replace.induct)
  case (3 x xs new c cs)
  have ne: "take (Suc (length xs)) (c # cs) \<noteq> x # xs"
  proof
    assume "take (Suc (length xs)) (c # cs) = x # xs"
    then have "set (x # xs) \<subseteq> set (c # cs)"
      using set_take_subset [of "Suc (length xs)" "c # cs"] by simp
    with 3 show False by auto
  qed
  from "3.prems" have "y \<notin> set cs" by simp
  with "3.IH"(2) [OF ne "3.prems"(1)] have "replace (x # xs) new cs = cs" by simp
  then show ?case
    unfolding replace.simps if_not_P [OF ne] by simp
qed simp_all

lemma count_le_one_tail:
  "count_list xs a \<le> 1 \<Longrightarrow> a \<notin> set (tl (dropWhile (\<lambda>c. c \<noteq> a) xs))"
  by (induction xs) (auto simp: count_list_0_iff split: if_splits)

lemma py_float_comma_text:
  "py_float fl nd (map comma_to_dot (comma_text nd s)) =
     (if count_list (comma_text nd s) comma \<le> 1 \<and> filter (is_digit nd) s \<noteq> []
      then Inr (rounded fl False (decimal_comma_value nd s))
      else Inl ValueError)"
proof -
  let ?c = "comma_text nd s"
  let ?pc = "map comma_to_dot ?c"
  have nodot: "dot \<notin> set ?c"
    using comma_text_set [of dot nd s] by auto
  have cntp: "count_list ?pc dot = count_list ?c comma"
    by (rule count_mapped [OF nodot])
  have dig: "(\<exists>c \<in> set ?pc. is_digit nd c) \<longleftrightarrow> filter (is_digit nd) s \<noteq> []"
  proof -
    have "(\<exists>c \<in> set ?pc. is_digit nd c) \<longleftrightarrow> (\<exists>c \<in> set ?c. is_digit nd c)"
      by (auto simp: comma_to_dot_def split: if_splits)
    also have "\<dots> \<longleftrightarrow> (\<exists>c \<in> set s. is_digit nd c)"
      by (auto simp: comma_text_def)
    finally show ?thesis by (simp add: filter_empty_conv)
  qed
  show ?thesis
  proof (cases "count_list ?c comma \<le> 1")
    case False
    then show ?thesis
      unfolding py_float_digits_dots [OF cleaned_alphabet] cntp by simp
  next
    case True
    have tl_eq: "tl (dropWhile (\<lambda>c. c \<noteq> dot) ?pc) = tl (dropWhile (\<lambda>c. c \<noteq> comma) ?c)"
    proof -
      have "tl (dropWhile (\<lambda>c. c \<noteq> dot) ?pc)
            = map comma_to_dot (tl (dropWhile (\<lambda>c. c \<noteq> comma) ?c))"
        by (simp add: dropWhile_mapped [OF nodot] map_tl)
      also have "\<dots> = tl (dropWhile (\<lambda>c. c \<noteq> comma) ?c)"
        by (rule map_comma_to_dot_id) (rule count_le_one_tail [OF True])
      finally show ?thesis .
    qed
    show ?thesis
      unfolding py_float_digits_dots [OF cleaned_alphabet] cntp dig tl_eq
        takeWhile_mapped [OF nodot]
      by (simp add: decimal_comma_value_def Let_def)
  qed
qed

lemma is_digit_not_space: "is_digit nd c \<Longrightarrow> \<not> is_space c"
  by (auto simp: is_digit_def decimal_def is_space_def split: if_splits)

lemma is_digit_euro [simp]: "\<not> is_digit nd euro"
  by (simp add: is_digit_def decimal_def)

lemma parse_price_rule:
  assumes "\<forall>c \<in> set s. is_digit nd c \<or> c = comma \<or> c = dot \<or> c = euro"
  shows "parse_price fl nd s =
           (if count_list (comma_text nd s) comma \<le> 1 \<and> filter (is_digit nd) s \<noteq> []
            then Some (rounded fl False (decimal_comma_value nd s))
            else None)"
proof -
  let ?c = "comma_text nd s"
  have "replace [dot] [] (replace [euro] [] s) = filter (\<lambda>c. c \<noteq> dot \<and> c \<noteq> euro) s"
    by (simp add: replace_single_empty conj_commute)
  also have "\<dots> = ?c"
    unfolding comma_text_def using assms by (intro filter_cong) auto
  finally have a: "replace [dot] [] (replace [euro] [] s) = ?c" .
  have nodot: "dot \<notin> set ?c"
    using comma_text_set [of dot nd s] by auto
  have b: "replace (codepoints ''k.k.'') [] ?c = ?c"
    by (rule replace_absent [of dot]) (use nodot in \<open>simp_all add: codepoints_def\<close>)
  have c: "strip_with is_space ?c = ?c"
  proof (rule strip_with_none, rule ballI)
    fix x assume "x \<in> set ?c"
    then have "is_digit nd x \<or> x = comma" by (rule comma_text_set)
    then show "\<not> is_space x"
      using is_digit_not_space [of nd x] by (auto simp: is_space_def)
  qed
  show ?thesis
    unfolding parse_price_def Let_def a b c replace_comma py_float_comma_text
    by simp
qed

text \<open>
  C3 (as stated): the decimal-form string \<^verbatim>\<open>"12.50"\<close> parses to 12.50, a final group of
  at most two digits after a dot being a decimal fraction. On the code every dot is
  removed before anything else is looked at, in both parsers, so the result is the float
  of 1250 (whatever the rounding and the table of digits, see the amended claim).
\<close>

theorem parse_price_dot_decimal_counterexample:
  "parse_price_text symbolic arabic_indic (codepoints ''12.50'') = Inr (Some (Nearest False 1250))
   \<and> parse_price symbolic arabic_indic (codepoints ''12.50'') = Some (Nearest False 1250)
   \<and> Nearest False 1250 \<noteq> Nearest False 12.5"
  by (simp add: parse_price_def parse_price_text_def eval_defs symbolic_def)

text \<open>
  C3 (amended): \<^verbatim>\<open>parse_price_text\<close> maps \<^verbatim>\<open>"\<euro> 425.000 k.k."\<close> to the float of 425000, and
  both parsers map the Dutch decimal form \<^verbatim>\<open>"12,50"\<close> to the float of 12.5 and \<^verbatim>\<open>"12.50"\<close>
  to the float of 1250. In general every dot of the text is dropped as a thousands
  separator and the comma is the decimal mark. \<^verbatim>\<open>parse_price_text\<close> keeps the decimal digits
  and commas of the text: when there is exactly one comma, followed by at most two digits,
  that group is the decimal fraction; otherwise the commas are dropped as well and the
  digits are read as one integer; a text without any digit yields \<^verbatim>\<open>None\<close>, and no text
  raises. \<^verbatim>\<open>parse_price\<close>, on a text of decimal digits, dots, commas and euro signs, reads
  the digits after a single comma as the decimal fraction, whatever their number, and
  yields \<^verbatim>\<open>None\<close> when there are several commas or no digit; it never raises.
\<close>

theorem parse_price_text_dutch:
  "parse_price_text fl nd (euro # codepoints '' 425.000 k.k.'')
     = Inr (Some (rounded fl False 425000))
   \<and> parse_price_text fl nd (codepoints ''12,50'') = Inr (Some (rounded fl False 12.5))
   \<and> parse_price fl nd (codepoints ''12,50'') = Some (rounded fl False 12.5)
   \<and> parse_price_text fl nd (codepoints ''12.50'') = Inr (Some (rounded fl False 1250))
   \<and> parse_price fl nd (codepoints ''12.50'') = Some (rounded fl False 1250)
   \<and> parse_price_text fl nd s =
       Inr (if filter (is_digit nd) s = [] then None
            else if decimal_comma_form nd s then Some (rounded fl False (decimal_comma_value nd s))
            else Some (rounded fl False (real (digits_val nd (filter (is_digit nd) s)))))
   \<and> ((\<forall>c \<in> set t. is_digit nd c \<or> c = comma \<or> c = dot \<or> c = euro) \<longrightarrow>
        parse_price fl nd t =
          (if count_list (comma_text nd t) comma \<le> 1 \<and> filter (is_digit nd) t \<noteq> []
           then Some (rounded fl False (decimal_comma_value nd t))
           else None))"
proof -
  have ex: "parse_price_text fl nd (euro # codepoints '' 425.000 k.k.'')
              = Inr (Some (rounded fl False 425000))"
    "parse_price_text fl nd (codepoints ''12,50'') = Inr (Some (rounded fl False 12.5))"
    "parse_price fl nd (codepoints ''12,50'') = Some (rounded fl False 12.5)"
    "parse_price_text fl nd (codepoints ''12.50'') = Inr (Some (rounded fl False 1250))"
    "parse_price fl nd (codepoints ''12.50'') = Some (rounded fl False 1250)"
    by (simp_all add: parse_price_def parse_price_text_def eval_defs)
  have gen: "parse_price_text fl nd s =
       Inr (if filter (is_digit nd) s = [] then None
            else if decimal_comma_form nd s then Some (rounded fl False (decimal_comma_value nd s))
            else Some (rounded fl False (real (digits_val nd (filter (is_digit nd) s)))))"
    by (cases "decimal_comma_form nd s")
      (simp_all add: parse_price_text_decimal parse_price_text_integer)
  from ex gen parse_price_rule [of t nd fl] show ?thesis by blast
qed

theorem parse_price_text_dutch_witness:
  "parse_price_text symbolic arabic_indic [1633, 1634, comma, 1635]
     = Inr (Some (Nearest False (123 / 10)))
   \<and> parse_price symbolic arabic_indic (euro # codepoints ''1.234,5'')
     = Some (Nearest False (12345 / 10))"
proof -
  let ?s = "[1633, 1634, comma, 1635] :: nat list"
  let ?t = "euro # codepoints ''1.234,5''"
  have alpha: "\<forall>c \<in> set ?t. is_digit arabic_indic c \<or> c = comma \<or> c = dot \<or> c = euro"
    by (simp add: codepoints_def is_digit_def decimal_def)
  have s: "filter (is_digit arabic_indic) ?s \<noteq> []" "decimal_comma_form arabic_indic ?s"
    "decimal_comma_value arabic_indic ?s = 123 / 10"
    by (simp_all add: decimal_comma_form_def decimal_comma_value_def comma_text_def
        is_digit_def decimal_def is_space_def arabic_indic_def digits_val_def)
  have t: "count_list (comma_text arabic_indic ?t) comma \<le> 1"
    "filter (is_digit arabic_indic) ?t \<noteq> []"
    "decimal_comma_value arabic_indic ?t = 12345 / 10"
    by (simp_all add: decimal_comma_value_def comma_text_def codepoints_def
        is_digit_def decimal_def is_space_def arabic_indic_def digits_val_def)
  from parse_price_text_dutch [of symbolic arabic_indic ?s ?t] alpha
  have "parse_price_text symbolic arabic_indic ?s =
       Inr (if filter (is_digit arabic_indic) ?s = [] then None
            else if decimal_comma_form arabic_indic ?s
              then Some (rounded symbolic False (decimal_comma_value arabic_indic ?s))
            else Some (rounded symbolic False
                   (real (digits_val arabic_indic (filter (is_digit arabic_indic) ?s)))))"
    and "parse_price symbolic arabic_indic ?t =
          (if count_list (comma_text arabic_indic ?t) comma \<le> 1
              \<and> filter (is_digit arabic_indic) ?t \<noteq> []
           then Some (rounded symbolic False (decimal_comma_value arabic_indic ?t))
           else None)"
    by blast+
  then show ?thesis
    unfolding if_not_P [OF s(1)] if_P [OF s(2)] s(3) if_P [OF conjI [OF t(1) t(2)]] t(3)
    by (simp add: symbolic_def)
qed

text \<open>
  The text of its own docstring is not parsed by \<^verbatim>\<open>FundaScraper.parse_price\<close>: the dots are
  removed before \<^verbatim>\<open>'k.k.'\<close> is looked for, so that \<^verbatim>\<open>kk\<close> stays in the text and \<^verbatim>\<open>float\<close>
  raises. Without the suffix the price is read.
\<close>

lemma parse_price_docstring_example:
  "parse_price fl nd (euro # codepoints '' 425.000 k.k.'') = None
   \<and> parse_price fl nd (euro # codepoints '' 425.000'') = Some (rounded fl False 425000)"
  by (simp add: parse_price_def eval_defs)

section \<open>Upsert writer: results\<close>

lemma do_update_identity [simp]:
  "source (do_update t new old) = source old" "source_id (do_update t new old) = source_id old"
  by (simp_all add: do_update_def)

lemma unique_map_do_update:
  "unique_source_id (map (do_update t new) tbl) = unique_source_id tbl"
  by (simp add: unique_source_id_def filter_map comp_def identity_def [abs_def])

lemma unique_append_new:
  assumes "unique_source_id tbl" "\<not> (\<exists>old \<in> set tbl. conflicts new old)"
  shows "unique_source_id (tbl @ [new])"
  using assms by (auto simp: unique_source_id_def identity_def conflicts_def)

lemma execute_unique:
  "unique_source_id tbl \<Longrightarrow> execute t new tbl = Inr (res, tbl') \<Longrightarrow> unique_source_id tbl'"
  by (auto simp: execute_def unique_map_do_update unique_append_new split: if_splits)

lemma execute_accepts:
  "execute t new tbl = Inr (res, tbl') \<Longrightarrow> raw_not_null new"
  by (auto simp: execute_def split: if_splits)

lemma distinct_map_filter_le:
  "distinct (map f xs) \<Longrightarrow> length (filter (\<lambda>x. f x = k) xs) \<le> 1"
  by (induction xs) (auto simp: image_iff filter_empty_conv)

lemma rows_for_unique_le:
  assumes "unique_source_id tbl" "src \<noteq> PNone" "sid \<noteq> PNone"
  shows "length (rows_for src sid tbl) \<le> 1"
proof -
  let ?nn = "filter (\<lambda>r. source r \<noteq> PNone \<and> source_id r \<noteq> PNone) tbl"
  have "rows_for src sid tbl = filter (\<lambda>r. identity r = (src, sid)) ?nn"
    using assms(2,3) unfolding rows_for_def filter_filter
    by (intro filter_cong) (auto simp: identity_def)
  moreover have "length (filter (\<lambda>r. identity r = (src, sid)) ?nn) \<le> 1"
    using assms(1) unfolding unique_source_id_def
    by (rule distinct_map_filter_le)
  ultimately show ?thesis by simp
qed

lemma rows_for_map_do_update:
  "rows_for src sid (map (do_update t new) tbl) = map (do_update t new) (rows_for src sid tbl)"
  by (simp add: rows_for_def filter_map comp_def)

lemma execute_row_stored:
  assumes u: "unique_source_id tbl" and ex: "execute t new tbl = Inr (res, tbl')"
  shows "\<exists>r. rows_for (source new) (source_id new) tbl' = [r]
              \<and> price r = price new \<and> scraped_at r = scraped_at new"
proof -
  from ex have nn: "source new \<noteq> PNone" "source_id new \<noteq> PNone"
    using execute_accepts [OF ex] by (simp_all add: raw_not_null_def)
  have same: "\<And>old. conflicts new old \<longleftrightarrow> source old = source new \<and> source_id old = source_id new"
    using nn by (simp add: conflicts_def)
  show ?thesis
  proof (cases "\<exists>old \<in> set tbl. conflicts new old")
    case True
    with ex have tbl': "tbl' = map (do_update t new) tbl"
      by (auto simp: execute_def split: if_splits)
    from True have "rows_for (source new) (source_id new) tbl \<noteq> []"
      by (auto simp: rows_for_def filter_empty_conv same)
    moreover have "length (rows_for (source new) (source_id new) tbl) \<le> 1"
      by (rule rows_for_unique_le [OF u nn])
    ultimately obtain old where old: "rows_for (source new) (source_id new) tbl = [old]"
      by (cases "rows_for (source new) (source_id new) tbl") auto
    then have "old \<in> set (rows_for (source new) (source_id new) tbl)" by simp
    then have "conflicts new old" by (simp add: rows_for_def same)
    then have "price (do_update t new old) = price new"
      "scraped_at (do_update t new old) = scraped_at new"
      by (simp_all add: do_update_def)
    with old tbl' show ?thesis by (simp add: rows_for_map_do_update)
  next
    case False
    with ex have tbl': "tbl' = tbl @ [new]"
      by (auto simp: execute_def split: if_splits)
    from False have "rows_for (source new) (source_id new) tbl = []"
      by (auto simp: rows_for_def filter_empty_conv same)
    with tbl' show ?thesis by (simp add: rows_for_def)
  qed
qed




text \<open>The unique index holds of the empty table and is kept by every run of the writer.\<close>

lemma store_loop_unique:
  "unique_source_id tbl \<Longrightarrow> unique_source_id (snd (store_loop t ls st tbl))"
proof (induction ls arbitrary: st tbl)
  case Nil
  then show ?case by simp
next
  case (Cons l ls)
  show ?case
  proof (cases "store_one t l tbl")
    case (Inl e)
    with Cons show ?thesis by simp
  next
    case (Inr p)
    obtain res tbl' where p: "p = (res, tbl')" by (cases p)
    with Inr have "execute t (insert_row l) tbl = Inr (res, tbl')"
      by (auto simp: store_one_def insert_args_def split: sum.splits option.splits)
    from execute_unique [OF Cons.prems this] have "unique_source_id tbl'" .
    with Cons.IH Inr p show ?thesis by simp
  qed
qed

lemma process_and_store_unique:
  assumes "unique_source_id (raw_property_listings w)"
  shows "unique_source_id (raw_property_listings (snd (process_and_store w ls)))"
  using assms
    store_loop_unique [of "raw_property_listings w" "now w" ls "\<lparr>inserted = 0, updated = 0, errors = 0\<rparr>"]
  by (auto simp: process_and_store_def split: prod.splits)






lemma storable_samples:
  "storable listing_a" "storable listing_b" "\<not> storable listing_bad"
  by (simp_all add: storable_def listing_a_def listing_b_def listing_bad_def sample_listing_def
      insert_columns_def insert_row_def raw_not_null_def get_def)

lemma store_one_storable:
  "storable l \<Longrightarrow> \<exists>tbl'. store_one t l tbl = Inr (command_tag, tbl')"
  by (simp add: storable_def store_one_def insert_args_def execute_def)

lemma store_one_not_storable:
  "\<not> storable l \<Longrightarrow> \<exists>e. store_one t l tbl = Inl e"
  by (auto simp: storable_def store_one_def insert_args_def execute_def split: option.splits)

lemma store_loop_counts:
  "store_loop t ls st tbl = (st', tbl') \<Longrightarrow>
   inserted st' + updated st' + errors st' = inserted st + updated st + errors st + int (length ls)"
proof (induction ls arbitrary: st tbl)
  case Nil
  then show ?case by simp
next
  case (Cons l ls)
  show ?case
  proof (cases "store_one t l tbl")
    case (Inl e)
    with Cons.prems have "store_loop t ls (st\<lparr>errors := errors st + 1\<rparr>) tbl = (st', tbl')"
      by simp
    from Cons.IH [OF this] show ?thesis by simp
  next
    case (Inr p)
    obtain res tbl1 where p: "p = (res, tbl1)" by (cases p)
    show ?thesis
    proof (cases "res = ''INSERT 0 1''")
      case True
      with Cons.prems Inr p
      have "store_loop t ls (st\<lparr>inserted := inserted st + 1\<rparr>) tbl1 = (st', tbl')" by simp
      from Cons.IH [OF this] show ?thesis by simp
    next
      case False
      with Cons.prems Inr p
      have "store_loop t ls (st\<lparr>updated := updated st + 1\<rparr>) tbl1 = (st', tbl')" by simp
      from Cons.IH [OF this] show ?thesis by simp
    qed
  qed
qed

lemma store_loop_tally:
  "store_loop t ls st tbl = (st', tbl') \<Longrightarrow>
   errors st' = errors st + int (length (filter (\<lambda>l. \<not> storable l) ls))
   \<and> inserted st' = inserted st + int (length (filter storable ls))
   \<and> updated st' = updated st"
proof (induction ls arbitrary: st tbl)
  case Nil
  then show ?case by simp
next
  case (Cons l ls)
  show ?case
  proof (cases "storable l")
    case True
    from store_one_storable [OF True] obtain tbl1 where
      "store_one t l tbl = Inr (command_tag, tbl1)" by blast
    with Cons.prems
    have "store_loop t ls (st\<lparr>inserted := inserted st + 1\<rparr>) tbl1 = (st', tbl')"
      by (simp add: command_tag_def)
    from Cons.IH [OF this] True show ?thesis by simp
  next
    case False
    from store_one_not_storable [OF False] obtain e where "store_one t l tbl = Inl e" by blast
    with Cons.prems have "store_loop t ls (st\<lparr>errors := errors st + 1\<rparr>) tbl = (st', tbl')"
      by simp
    from Cons.IH [OF this] False show ?thesis by simp
  qed
qed

lemma store_loop_table:
  "snd (store_loop t ls st tbl) = snd (store_loop t (filter storable ls) st0 tbl)"
proof (induction ls arbitrary: st st0 tbl)
  case Nil
  then show ?case by simp
next
  case (Cons l ls)
  show ?case
  proof (cases "storable l")
    case True
    from store_one_storable [OF True] obtain tbl1 where
      "store_one t l tbl = Inr (command_tag, tbl1)" by blast
    with True Cons.IH show ?thesis by (simp add: command_tag_def)
  next
    case False
    from store_one_not_storable [OF False] obtain e where "store_one t l tbl = Inl e" by blast
    with False Cons.IH show ?thesis by simp
  qed
qed

lemma store_loop_no_storable:
  "filter storable ls = [] \<Longrightarrow> snd (store_loop t ls st tbl) = tbl"
  using store_loop_table [of t ls st tbl st] by simp

text \<open>
  Within one batch as well: whatever was written before, after a storable listing has
  been written as the last one of a batch, exactly one row has its key, with its
  \<^verbatim>\<open>price\<close> and \<^verbatim>\<open>scraped_at\<close>.
\<close>

lemma store_loop_append:
  "store_loop t (xs @ ys) st tbl
     = (case store_loop t xs st tbl of (st1, tbl1) \<Rightarrow> store_loop t ys st1 tbl1)"
  by (induction xs arbitrary: st tbl) (auto split: sum.splits prod.splits)

lemma last_write_wins:
  assumes u: "unique_source_id (raw_property_listings w)" and r: "reachable w"
    and s: "storable b"
  shows "\<exists>r. rows_for (get b ''source'') (get b ''source_id'')
               (raw_property_listings (snd (process_and_store w (ls @ [b])))) = [r]
            \<and> price r = get b ''price'' \<and> scraped_at r = get b ''scraped_at''"
proof -
  let ?z = "\<lparr>inserted = 0, updated = 0, errors = 0\<rparr>"
  obtain st1 tbl1 where l1: "store_loop (now w) ls ?z (raw_property_listings w) = (st1, tbl1)"
    by (cases "store_loop (now w) ls ?z (raw_property_listings w)")
  have u1: "unique_source_id tbl1"
    using store_loop_unique [OF u, of "now w" ls ?z] l1 by simp
  from store_one_storable [OF s, of "now w" tbl1] obtain tbl2 where
    s2: "store_one (now w) b tbl1 = Inr (command_tag, tbl2)" by blast
  with s have e2: "execute (now w) (insert_row b) tbl1 = Inr (command_tag, tbl2)"
    by (simp add: store_one_def insert_args_def storable_def)
  have "raw_property_listings (snd (process_and_store w (ls @ [b]))) = tbl2"
    using r l1 s2 by (simp add: process_and_store_def store_loop_append command_tag_def)
  with execute_row_stored [OF u1 e2] show ?thesis
    by (simp add: insert_row_def)
qed

text \<open>
  C2: writing the same batch a second time reports \<^verbatim>\<open>inserted = 0\<close>, and a write counts as
  inserted only when no row with its key existed. The code compares the command status
  with \<^verbatim>\<open>"INSERT 0 1"\<close>, which is the status of the upsert in both cases: every stored
  listing is counted as inserted and \<^verbatim>\<open>updated\<close> stays 0. Here the same one-listing batch
  is written twice, starting from the empty table; the second run reports
  \<^verbatim>\<open>inserted = 1\<close>.
\<close>

theorem process_and_store_rerun:
  "process_and_store (snd (process_and_store empty_world [listing_a])) [listing_a]
     = (Inr \<lparr>inserted = 1, updated = 0, errors = 0\<rparr>,
        empty_world\<lparr>raw_property_listings :=
          [(insert_row listing_a)\<lparr>updated_at := PDatetime 0\<rparr>]\<rparr>)"
  by (simp add: process_and_store_def empty_world_def listing_a_def sample_listing_def
      store_one_def insert_args_def insert_columns_def insert_row_def get_def execute_def
      raw_not_null_def conflicts_def command_tag_def do_update_def)

lemma process_and_store_never_updated:
  assumes "process_and_store w ls = (Inr st, w')"
  shows "updated st = 0 \<and> inserted st = int (length (filter storable ls))"
proof (cases "ls = []")
  case True
  with assms show ?thesis by (auto simp: process_and_store_def)
next
  case False
  with assms obtain tbl where
    "store_loop (now w) ls \<lparr>inserted = 0, updated = 0, errors = 0\<rparr> (raw_property_listings w)
       = (st, tbl)"
    by (auto simp: process_and_store_def split: if_splits prod.splits)
  from store_loop_tally [OF this] show ?thesis by simp
qed

section \<open>Batch buffer: results\<close>

lemma flush_args_present:
  "\<forall>l \<in> set ls. first_missing l flush_columns = None \<Longrightarrow>
   flush_args ls = Inr (map flush_row ls)"
  by (induction ls) simp_all

lemma flush_args_flushable:
  "\<forall>l \<in> set ls. flushable accepts l \<Longrightarrow> flush_args ls = Inr (map flush_row ls)"
  by (rule flush_args_present) (simp add: flushable_def)

lemma flush_args_Inr:
  "flush_args ls = Inr rs \<Longrightarrow>
   rs = map flush_row ls \<and> (\<forall>l \<in> set ls. first_missing l flush_columns = None)"
  by (induction ls arbitrary: rs) (auto split: option.splits sum.splits)

lemma executemany_accepted:
  "\<forall>r \<in> set rs. accepts r \<Longrightarrow> \<exists>tbl'. executemany accepts rs tbl = Inr tbl'"
  by (induction rs arbitrary: tbl) (auto simp: execute_flush_def)

lemma executemany_Inr:
  "executemany accepts rs tbl = Inr tbl' \<Longrightarrow> \<forall>r \<in> set rs. accepts r"
  by (induction rs arbitrary: tbl) (auto simp: execute_flush_def split: if_splits sum.splits)

lemma executemany_Inl:
  "executemany accepts rs tbl = Inl e \<Longrightarrow> e = DatabaseError"
  by (induction rs arbitrary: tbl) (auto simp: execute_flush_def split: if_splits sum.splits)

lemma executemany_rejected:
  assumes "\<exists>r \<in> set rs. \<not> accepts r"
  shows "executemany accepts rs tbl = Inl DatabaseError"
proof (cases "executemany accepts rs tbl")
  case (Inl e)
  with executemany_Inl [OF Inl] show ?thesis by simp
next
  case (Inr tbl')
  with executemany_Inr [OF Inr] assms show ?thesis by blast
qed

lemma flush_success:
  assumes "buffer bp \<noteq> []" "reachable w" "\<forall>l \<in> set (buffer bp). flushable accepts l"
  shows "\<exists>tbl. flush accepts bp w =
           (Inr (), bp\<lparr>buffer := []\<rparr>,
            w\<lparr>property_listings := tbl,
              executemany_calls := executemany_calls w @ [map flush_row (buffer bp)]\<rparr>)"
proof -
  have "\<forall>r \<in> set (map flush_row (buffer bp)). accepts r"
    using assms(3) by (simp add: flushable_def)
  from executemany_accepted [OF this] obtain tbl where
    "executemany accepts (map flush_row (buffer bp)) (property_listings w) = Inr tbl" by blast
  with assms have "flush accepts bp w =
           (Inr (), bp\<lparr>buffer := []\<rparr>,
            w\<lparr>property_listings := tbl,
              executemany_calls := executemany_calls w @ [map flush_row (buffer bp)]\<rparr>)"
    by (simp add: flush_def flush_args_flushable)
  then show ?thesis by blast
qed

lemma flush_Inr_flushable:
  assumes "flush accepts bp w = (Inr (), bp', w')" "buffer bp \<noteq> []"
  shows "reachable w \<and> (\<forall>l \<in> set (buffer bp). flushable accepts l)"
proof -
  from assms obtain rs tbl where r: "reachable w" and a: "flush_args (buffer bp) = Inr rs"
    and e: "executemany accepts rs (property_listings w) = Inr tbl"
    by (auto simp: flush_def split: if_splits sum.splits)
  from flush_args_Inr [OF a] executemany_Inr [OF e] r show ?thesis
    by (simp add: flushable_def)
qed

lemma flush_rejected:
  assumes "buffer bp \<noteq> []" "reachable w"
    and "\<forall>l \<in> set (buffer bp). first_missing l flush_columns = None"
    and "\<exists>l \<in> set (buffer bp). \<not> accepts (flush_row l)"
  shows "flush accepts bp w =
           (Inl DatabaseError, bp,
            w\<lparr>executemany_calls := executemany_calls w @ [map flush_row (buffer bp)]\<rparr>)"
proof -
  have "\<exists>r \<in> set (map flush_row (buffer bp)). \<not> accepts r"
    using assms(4) by simp
  from executemany_rejected [OF this]
  have "executemany accepts (map flush_row (buffer bp)) (property_listings w)
          = Inl DatabaseError" .
  with assms(1,2) flush_args_present [OF assms(3)] show ?thesis
    by (simp add: flush_def)
qed

lemma flush_raises_keeps_table:
  assumes "flush accepts bp w = (Inl e, bp', w')"
  shows "bp' = bp \<and> property_listings w' = property_listings w"
  using assms by (auto simp: flush_def split: if_splits sum.splits)

lemma full_chunks_short: "length xs < n \<Longrightarrow> full_chunks n xs = []"
  by (simp add: full_chunks.simps)

lemma full_chunks_step:
  "0 < n \<Longrightarrow> length xs = n \<Longrightarrow> full_chunks n (xs @ ys) = xs # full_chunks n ys"
  by (subst full_chunks.simps) simp

lemma drop_past_prefix: "length xs = n \<Longrightarrow> drop (n + k) (xs @ ys) = drop k ys"
  by simp

lemma process_listings_chunks:
  assumes "0 < N" "batch_size bp = int N" "length (buffer bp) < N" "reachable w"
    and "\<forall>l \<in> set (buffer bp @ ls). flushable accepts l"
  shows "\<exists>bp' w'. process_listings accepts bp w ls = (Inr (), bp', w')
           \<and> buffer bp' = drop (N * (length (buffer bp @ ls) div N)) (buffer bp @ ls)
           \<and> executemany_calls w'
               = executemany_calls w @ map (map flush_row) (full_chunks N (buffer bp @ ls))"
  using assms
proof (induction ls arbitrary: bp w)
  case Nil
  then show ?case by (simp add: full_chunks_short)
next
  case (Cons l ls)
  let ?bp1 = "bp\<lparr>buffer := buffer bp @ [l]\<rparr>"
  show ?case
  proof (cases "length (buffer bp) + 1 < N")
    case True
    then have step: "process_listing accepts bp w l = (Inr (), ?bp1, w)"
      using Cons.prems(2) by (simp add: process_listing_def Let_def)
    have "\<exists>bp' w'. process_listings accepts ?bp1 w ls = (Inr (), bp', w')
           \<and> buffer bp' = drop (N * (length (buffer ?bp1 @ ls) div N)) (buffer ?bp1 @ ls)
           \<and> executemany_calls w'
               = executemany_calls w @ map (map flush_row) (full_chunks N (buffer ?bp1 @ ls))"
      using Cons.prems True by (intro Cons.IH) simp_all
    with step show ?thesis by simp
  next
    case False
    with Cons.prems(3) have full: "length (buffer bp @ [l]) = N" by simp
    have fl: "\<forall>x \<in> set (buffer ?bp1). flushable accepts x"
      using Cons.prems(5) by simp
    from flush_success [of ?bp1 w accepts, OF _ Cons.prems(4) fl] obtain tbl where
      fs: "flush accepts ?bp1 w = (Inr (), ?bp1\<lparr>buffer := []\<rparr>,
             w\<lparr>property_listings := tbl,
               executemany_calls := executemany_calls w @ [map flush_row (buffer bp @ [l])]\<rparr>)"
      by auto
    let ?bp2 = "?bp1\<lparr>buffer := []\<rparr>"
    let ?w2 = "w\<lparr>property_listings := tbl,
               executemany_calls := executemany_calls w @ [map flush_row (buffer bp @ [l])]\<rparr>"
    have step: "process_listing accepts bp w l = (Inr (), ?bp2, ?w2)"
      using full fs Cons.prems(2) by (simp add: process_listing_def Let_def)
    have ih: "\<exists>bp' w'. process_listings accepts ?bp2 ?w2 ls = (Inr (), bp', w')
           \<and> buffer bp' = drop (N * (length (buffer ?bp2 @ ls) div N)) (buffer ?bp2 @ ls)
           \<and> executemany_calls w'
               = executemany_calls ?w2 @ map (map flush_row) (full_chunks N (buffer ?bp2 @ ls))"
      using Cons.prems by (intro Cons.IH) simp_all
    have chunks: "full_chunks N (buffer bp @ l # ls) = (buffer bp @ [l]) # full_chunks N ls"
      using full_chunks_step [OF Cons.prems(1) full, of ls] by simp
    have "N * (length (buffer bp @ l # ls) div N) = N + N * (length ls div N)"
    proof -
      have "length (buffer bp @ l # ls) = N + length ls" using full by simp
      moreover have "(N + length ls) div N = 1 + length ls div N"
        using Cons.prems(1) by simp
      ultimately show ?thesis by (simp only: distrib_left mult_1_right)
    qed
    then have drops: "drop (N * (length (buffer bp @ l # ls) div N)) (buffer bp @ l # ls)
                 = drop (N * (length ls div N)) ls"
      using drop_past_prefix [OF full, of "N * (length ls div N)" ls] by simp
    from ih step chunks drops show ?thesis by simp
  qed
qed

lemma full_chunks_250:
  assumes "length ls = 250"
  shows "full_chunks 100 ls = [take 100 ls, take 100 (drop 100 ls)]"
proof -
  have "full_chunks 100 ls = take 100 ls # full_chunks 100 (drop 100 ls)"
    using assms by (subst full_chunks.simps) simp
  also have "full_chunks 100 (drop 100 ls)
      = take 100 (drop 100 ls) # full_chunks 100 (drop 100 (drop 100 ls))"
    using assms by (subst full_chunks.simps) simp
  also have "full_chunks 100 (drop 100 (drop 100 ls)) = []"
    using assms by (intro full_chunks_short) simp
  finally show ?thesis .
qed

text \<open>Below the capacity an add only appends; the add that fills the buffer flushes.\<close>

lemma process_listings_fill:
  "int (length (buffer bp) + length ls) < batch_size bp \<Longrightarrow>
   process_listings accepts bp w ls = (Inr (), bp\<lparr>buffer := buffer bp @ ls\<rparr>, w)"
proof (induction ls arbitrary: bp)
  case Nil
  then show ?case by simp
next
  case (Cons l ls)
  let ?bp1 = "bp\<lparr>buffer := buffer bp @ [l]\<rparr>"
  from Cons.prems have step: "process_listing accepts bp w l = (Inr (), ?bp1, w)"
    by (simp add: process_listing_def Let_def)
  from Cons.prems have "int (length (buffer ?bp1) + length ls) < batch_size ?bp1" by simp
  from Cons.IH [OF this] step show ?case by simp
qed

lemma process_listings_append:
  "process_listings accepts bp w (xs @ ys)
     = (case process_listings accepts bp w xs of
          (Inl e, bp', w') \<Rightarrow> (Inl e, bp', w')
        | (Inr u, bp', w') \<Rightarrow> process_listings accepts bp' w' ys)"
  by (induction xs arbitrary: bp w) (auto split: prod.splits sum.splits)

lemma first_flush_rejected:
  assumes n: "0 < N" "batch_size bp = int N" "buffer bp = []" "N \<le> length ls"
    and r: "reachable w"
    and k: "\<forall>l \<in> set (take N ls). first_missing l flush_columns = None"
    and a: "\<exists>l \<in> set (take N ls). \<not> accepts (flush_row l)"
  shows "process_listings accepts bp w ls =
           (Inl DatabaseError, bp\<lparr>buffer := take N ls\<rparr>,
            w\<lparr>executemany_calls := executemany_calls w @ [map flush_row (take N ls)]\<rparr>)"
proof -
  from n obtain M where M: "N = Suc M" by (cases N) auto
  let ?xs = "take M ls"
  let ?l = "ls ! M"
  let ?ys = "drop N ls"
  have split: "ls = ?xs @ ?l # ?ys"
    using n(4) M by (simp add: id_take_nth_drop)
  have tk: "take N ls = ?xs @ [?l]"
    using n(4) M by (simp add: take_Suc_conv_app_nth)
  have fill: "process_listings accepts bp w ?xs = (Inr (), bp\<lparr>buffer := ?xs\<rparr>, w)"
    using process_listings_fill [of bp ?xs accepts w] n M by simp
  let ?bp1 = "bp\<lparr>buffer := ?xs @ [?l]\<rparr>"
  have "flush accepts ?bp1 w =
          (Inl DatabaseError, ?bp1,
           w\<lparr>executemany_calls := executemany_calls w @ [map flush_row (buffer ?bp1)]\<rparr>)"
    using r k a tk by (intro flush_rejected) simp_all
  then have step: "process_listing accepts (bp\<lparr>buffer := ?xs\<rparr>) w ?l =
          (Inl DatabaseError, ?bp1,
           w\<lparr>executemany_calls := executemany_calls w @ [map flush_row (?xs @ [?l])]\<rparr>)"
    using n M by (simp add: process_listing_def Let_def)
  have "process_listings accepts bp w (?xs @ ?l # ?ys) =
          (Inl DatabaseError, ?bp1,
           w\<lparr>executemany_calls := executemany_calls w @ [map flush_row (?xs @ [?l])]\<rparr>)"
    by (simp add: process_listings_append fill step)
  with split tk show ?thesis by simp
qed

lemma flushable_numbered: "flushable keyed_accepts (numbered_listing i)"
  by (simp add: flushable_def numbered_listing_def sample_listing_def flush_columns_def
      flush_row_def keyed_accepts_def declared_not_null_def column_def get_def)

lemma declared_accepts_nothing: "\<not> declared_accepts (flush_row l)"
  by (simp add: declared_accepts_def declared_not_null_def column_def)

lemma scraped_listing_keys: "first_missing scraped_listing flush_columns = None"
  by (simp add: scraped_listing_def flush_columns_def)

text \<open>
  C5 (as stated): adding 250 listings to an empty buffer of capacity 100 triggers exactly
  2 automatic flushes of 100 listings and leaves 50 pending. The claim does not say that
  the writes succeed, and on the code they need not: with the table as \<^verbatim>\<open>schema.py\<close>
  declares it and 250 listings as \<^verbatim>\<open>FundaScraper\<close> builds them, the first automatic
  flush raises, the exception leaves the add of the 100th listing, 100 listings (not 50)
  stay pending, nothing is stored and the remaining 150 listings are never added.
\<close>

theorem batch_buffer_first_flush_counterexample:
  "process_listings declared_accepts (new_processor 100) empty_world
       (replicate 250 scraped_listing)
     = (Inl DatabaseError,
        \<lparr>batch_size = 100, buffer = replicate 100 scraped_listing\<rparr>,
        empty_world\<lparr>executemany_calls := [replicate 100 (flush_row scraped_listing)]\<rparr>)"
proof -
  have e: "executemany_calls empty_world = []"
    by (simp add: empty_world_def)
  from first_flush_rejected [of 100 "new_processor 100" "replicate 250 scraped_listing"
      empty_world declared_accepts]
  show ?thesis
    by (simp add: new_processor_def scraped_listing_keys declared_accepts_nothing e)
      (simp add: empty_world_def)
qed

text \<open>
  C5 (amended): a processor with capacity \<open>N > 0\<close> starts empty, the database is
  reachable and accepts every listing that is added. Then the batches handed to
  \<^verbatim>\<open>executemany\<close> are exactly the consecutive full chunks of \<open>N\<close> listings, in insertion
  order, and the remainder stays in the buffer: a flush fires exactly when the pending
  count reaches \<open>N\<close>. With capacity 100 and 250 listings there are exactly 2 flushes, of
  the first and of the second hundred, and the last 50 listings stay pending.
\<close>

theorem batch_buffer_flushes:
  assumes "0 < N" "batch_size bp = int N" "buffer bp = []" "reachable w"
    and "\<forall>l \<in> set ls. flushable accepts l"
  shows "\<exists>bp' w'. process_listings accepts bp w ls = (Inr (), bp', w')
           \<and> executemany_calls w' = executemany_calls w @ map (map flush_row) (full_chunks N ls)
           \<and> buffer bp' = drop (N * (length ls div N)) ls
           \<and> (N = 100 \<and> length ls = 250 \<longrightarrow>
                executemany_calls w'
                  = executemany_calls w
                    @ [map flush_row (take 100 ls), map flush_row (take 100 (drop 100 ls))]
                \<and> buffer bp' = drop 200 ls \<and> length (buffer bp') = 50)"
proof -
  from process_listings_chunks [of N bp w ls accepts] assms
  obtain bp' w' where r: "process_listings accepts bp w ls = (Inr (), bp', w')"
    "buffer bp' = drop (N * (length ls div N)) ls"
    "executemany_calls w' = executemany_calls w @ map (map flush_row) (full_chunks N ls)"
    by auto
  have "N = 100 \<and> length ls = 250 \<longrightarrow>
          executemany_calls w'
            = executemany_calls w
              @ [map flush_row (take 100 ls), map flush_row (take 100 (drop 100 ls))]
          \<and> buffer bp' = drop 200 ls \<and> length (buffer bp') = 50"
    using r(2,3) by (auto simp: full_chunks_250)
  with r show ?thesis by blast
qed

theorem batch_buffer_flushes_witness:
  "\<exists>bp' w'. process_listings keyed_accepts (new_processor 100) empty_world
                 (map numbered_listing [0..<250])
                = (Inr (), bp', w')
       \<and> executemany_calls w'
           = [map flush_row (map numbered_listing [0..<100]),
              map flush_row (map numbered_listing [100..<200])]
       \<and> buffer bp' = map numbered_listing [200..<250]"
proof -
  have t: "take 100 (map numbered_listing [0..<250]) = map numbered_listing [0..<100]"
    "take 100 (drop 100 (map numbered_listing [0..<250])) = map numbered_listing [100..<200]"
    "drop 200 (map numbered_listing [0..<250]) = map numbered_listing [200..<250]"
    by (simp_all add: take_map drop_map take_upt drop_upt)
  from batch_buffer_flushes [of 100 "new_processor 100" empty_world
      "map numbered_listing [0..<250]" keyed_accepts]
  show ?thesis
    by (auto simp: new_processor_def empty_world_def flushable_numbered t)
qed

text \<open>
  C6 (as stated): every call of \<^verbatim>\<open>flush\<close> clears the buffer, also when rows of the batch
  fail. On the code a failing row makes \<^verbatim>\<open>executemany\<close> raise, the exception leaves
  \<^verbatim>\<open>flush\<close> before the buffer is cleared, and the listings stay pending: so for the
  listing without \<^verbatim>\<open>source_id\<close> on a table that checks its NOT NULL columns, and for
  any listing on the table as it is declared.
\<close>

theorem flush_keeps_buffer_counterexample:
  "flush keyed_accepts \<lparr>batch_size = 100, buffer = [listing_bad]\<rparr> empty_world
     = (Inl DatabaseError, \<lparr>batch_size = 100, buffer = [listing_bad]\<rparr>,
        empty_world\<lparr>executemany_calls := [[flush_row listing_bad]]\<rparr>)
   \<and> flush declared_accepts \<lparr>batch_size = 100, buffer = [listing_a]\<rparr> empty_world
     = (Inl DatabaseError, \<lparr>batch_size = 100, buffer = [listing_a]\<rparr>,
        empty_world\<lparr>executemany_calls := [[flush_row listing_a]]\<rparr>)"
  by (simp add: flush_def empty_world_def listing_bad_def listing_a_def sample_listing_def
      flush_columns_def execute_flush_def declared_accepts_nothing)
    (simp add: keyed_accepts_def declared_not_null_def column_def flush_row_def get_def)

text \<open>
  C6 (amended): \<^verbatim>\<open>flush\<close> on an empty buffer returns without touching the database. It
  returns normally exactly when the buffer is empty, or the database is reachable and
  every pending listing can be written; then the entire pending sequence was handed to
  \<^verbatim>\<open>executemany\<close> as one batch and the buffer is empty afterwards. Otherwise \<^verbatim>\<open>flush\<close>
  raises and the buffer is left as it was.
\<close>

theorem flush_outcome:
  assumes "flush accepts bp w = (res, bp', w')"
  shows "(buffer bp = [] \<longrightarrow> res = Inr () \<and> bp' = bp \<and> w' = w)
       \<and> (res = Inr () \<longleftrightarrow>
            buffer bp = [] \<or> (reachable w \<and> (\<forall>l \<in> set (buffer bp). flushable accepts l)))
       \<and> (res = Inr () \<longrightarrow> buffer bp' = [])
       \<and> (res = Inr () \<and> buffer bp \<noteq> [] \<longrightarrow>
            executemany_calls w' = executemany_calls w @ [map flush_row (buffer bp)])
       \<and> (res \<noteq> Inr () \<longrightarrow> bp' = bp)"
proof (cases "buffer bp = []")
  case True
  with assms show ?thesis by (auto simp: flush_def)
next
  case False
  show ?thesis
  proof (cases "reachable w \<and> (\<forall>l \<in> set (buffer bp). flushable accepts l)")
    case True
    with flush_success [OF False, of w accepts] assms False show ?thesis by auto
  next
    case nf: False
    have "res \<noteq> Inr ()"
    proof
      assume "res = Inr ()"
      with assms have "flush accepts bp w = (Inr (), bp', w')" by simp
      from flush_Inr_flushable [OF this False] nf show False by simp
    qed
    moreover have "bp' = bp \<or> res = Inr ()"
      using assms by (auto simp: flush_def split: if_splits sum.splits)
    ultimately show ?thesis using False nf by auto
  qed
qed

lemma flush_sample:
  "flush keyed_accepts \<lparr>batch_size = 100, buffer = [listing_a]\<rparr> empty_world
     = (Inr (), \<lparr>batch_size = 100, buffer = []\<rparr>,
        empty_world\<lparr>property_listings := [flush_row listing_a],
                     executemany_calls := [[flush_row listing_a]]\<rparr>)"
  by (simp add: flush_def empty_world_def listing_a_def sample_listing_def flush_columns_def
      execute_flush_def)
    (simp add: keyed_accepts_def declared_not_null_def column_def flush_row_def get_def)

theorem flush_outcome_witness:
  "reachable empty_world \<and> flushable keyed_accepts listing_a
   \<and> buffer \<lparr>batch_size = 100, buffer = []\<rparr> = []
   \<and> executemany_calls (empty_world\<lparr>property_listings := [flush_row listing_a],
                                     executemany_calls := [[flush_row listing_a]]\<rparr>)
       = executemany_calls empty_world @ [map flush_row [listing_a]]"
  using flush_outcome [OF flush_sample]
  by (simp add: empty_world_def)

section \<open>Failing rows in the two writers\<close>

text \<open>
  C7 (as stated): when the upsert writer processes a batch, one bad row never aborts the
  batch. This holds of \<^verbatim>\<open>process_and_store\<close> and fails for the writer inside
  \<^verbatim>\<open>BatchProcessor.flush\<close>: with one bad row among three, \<^verbatim>\<open>executemany\<close> raises, no
  error is counted, and neither the listing before the bad one nor the one after it is
  stored.
\<close>

theorem flush_aborts_batch_counterexample:
  "flush keyed_accepts \<lparr>batch_size = 100, buffer = [listing_a, listing_bad, listing_b]\<rparr>
       empty_world
     = (Inl DatabaseError, \<lparr>batch_size = 100, buffer = [listing_a, listing_bad, listing_b]\<rparr>,
        empty_world\<lparr>executemany_calls :=
          [[flush_row listing_a, flush_row listing_bad, flush_row listing_b]]\<rparr>)
   \<and> property_listings (empty_world\<lparr>executemany_calls :=
          [[flush_row listing_a, flush_row listing_bad, flush_row listing_b]]\<rparr>) = []"
proof -
  have k: "\<forall>l \<in> set [listing_a, listing_bad, listing_b]. first_missing l flush_columns = None"
    by (simp add: listing_a_def listing_b_def listing_bad_def sample_listing_def
        flush_columns_def)
  have a: "\<exists>l \<in> set [listing_a, listing_bad, listing_b]. \<not> keyed_accepts (flush_row l)"
    by (simp add: listing_bad_def sample_listing_def keyed_accepts_def declared_not_null_def
        column_def flush_row_def get_def)
  from flush_rejected [of "\<lparr>batch_size = 100, buffer = [listing_a, listing_bad, listing_b]\<rparr>"
      empty_world keyed_accepts] k a
  show ?thesis by (simp add: empty_world_def)
qed

text \<open>
  C7 (amended): when \<^verbatim>\<open>FundaDataProcessor.process_and_store\<close> processes a batch and the
  connection can be opened (or the batch is empty), it returns its counters, and they add
  up to the number of listings. \<^verbatim>\<open>errors\<close> is the number of listings whose write fails,
  and the table afterwards is the one that writing only the other listings produces: a
  failing listing is counted and skipped, and every later listing is still written.
  \<^verbatim>\<open>BatchProcessor.flush\<close> counts nothing: when a pending listing cannot be written, it
  raises, its buffer is kept and nothing of the batch is stored.
\<close>

theorem process_and_store_counts:
  assumes "reachable w \<or> ls = []"
  shows "(\<exists>st w'. process_and_store w ls = (Inr st, w')
           \<and> inserted st + updated st + errors st = int (length ls)
           \<and> errors st = int (length (filter (\<lambda>l. \<not> storable l) ls))
           \<and> raw_property_listings w'
               = raw_property_listings (snd (process_and_store w (filter storable ls))))
       \<and> (buffer bp \<noteq> [] \<and> (\<exists>l \<in> set (buffer bp). \<not> flushable accepts l) \<longrightarrow>
            (\<exists>e w'. flush accepts bp w = (Inl e, bp, w')
               \<and> property_listings w' = property_listings w))"
proof -
  have writer: "\<exists>st w'. process_and_store w ls = (Inr st, w')
           \<and> inserted st + updated st + errors st = int (length ls)
           \<and> errors st = int (length (filter (\<lambda>l. \<not> storable l) ls))
           \<and> raw_property_listings w'
               = raw_property_listings (snd (process_and_store w (filter storable ls)))"
  proof (cases "ls = []")
    case True
    then show ?thesis by (simp add: process_and_store_def)
  next
    case False
    with assms have r: "reachable w" by simp
    let ?z = "\<lparr>inserted = 0, updated = 0, errors = 0\<rparr>"
    obtain st tbl where sl: "store_loop (now w) ls ?z (raw_property_listings w) = (st, tbl)"
      by (cases "store_loop (now w) ls ?z (raw_property_listings w)")
    with False r have res: "process_and_store w ls = (Inr st, w\<lparr>raw_property_listings := tbl\<rparr>)"
      by (simp add: process_and_store_def)
    have tbl: "tbl = raw_property_listings (snd (process_and_store w (filter storable ls)))"
    proof (cases "filter storable ls = []")
      case True
      with store_loop_no_storable [OF True, of "now w" ?z "raw_property_listings w"] sl
      show ?thesis by (simp add: process_and_store_def)
    next
      case False
      with r store_loop_table [of "now w" ls ?z "raw_property_listings w" ?z] sl
      show ?thesis by (simp add: process_and_store_def split: prod.splits)
    qed
    from store_loop_counts [OF sl] store_loop_tally [OF sl] res tbl show ?thesis by simp
  qed
  have buffered: "\<exists>e w'. flush accepts bp w = (Inl e, bp, w')
               \<and> property_listings w' = property_listings w"
    if ne: "buffer bp \<noteq> []" and bad: "\<exists>l \<in> set (buffer bp). \<not> flushable accepts l"
  proof -
    obtain res bp' w' where f: "flush accepts bp w = (res, bp', w')"
      by (cases "flush accepts bp w") auto
    have "res \<noteq> Inr ()"
    proof
      assume "res = Inr ()"
      with f have "flush accepts bp w = (Inr (), bp', w')" by simp
      from flush_Inr_flushable [OF this ne] bad show False by blast
    qed
    then obtain e where e: "res = Inl e" by (cases res) auto
    from flush_raises_keeps_table [of accepts bp w e bp' w'] f e show ?thesis by simp
  qed
  from writer buffered show ?thesis by blast
qed

theorem process_and_store_counts_witness:
  "(\<exists>st w'. process_and_store empty_world [listing_a, listing_bad, listing_b] = (Inr st, w')
         \<and> inserted st + updated st + errors st = 3
         \<and> errors st = 1
         \<and> raw_property_listings w'
             = raw_property_listings (snd (process_and_store empty_world [listing_a, listing_b])))
   \<and> (\<exists>e w'. flush keyed_accepts
                 \<lparr>batch_size = 100, buffer = [listing_a, listing_bad, listing_b]\<rparr> empty_world
               = (Inl e, \<lparr>batch_size = 100, buffer = [listing_a, listing_bad, listing_b]\<rparr>, w')
         \<and> property_listings w' = property_listings empty_world)"
proof -
  have r: "reachable empty_world \<or> [listing_a, listing_bad, listing_b] = []"
    by (simp add: empty_world_def)
  have b: "\<not> flushable keyed_accepts listing_bad"
    by (simp add: flushable_def listing_bad_def sample_listing_def keyed_accepts_def
        declared_not_null_def column_def flush_row_def get_def)
  from process_and_store_counts [OF r,
      of "\<lparr>batch_size = 100, buffer = [listing_a, listing_bad, listing_b]\<rparr>" keyed_accepts] b
  show ?thesis by (simp add: storable_samples)
qed

section \<open>Fallback collector: results\<close>

lemma mock_sources:
  "r \<in> set (generate_mock_cbs_data rt) \<Longrightarrow> get r ''source'' = PStr ''cbs_mock''"
  by (auto simp: generate_mock_cbs_data_def mock_record_def get_def Let_def)

lemma mock_length: "length (generate_mock_cbs_data rt) = 20"
  by (simp add: generate_mock_cbs_data_def regions_def periods_def)

lemma mock_keys:
  "map (\<lambda>r. (get r ''region'', get r ''period'')) (generate_mock_cbs_data rt)
     = map (\<lambda>(region, period). (PStr region, PStr period)) (List.product regions periods)"
  by (simp add: generate_mock_cbs_data_def regions_def periods_def mock_record_def get_def Let_def)

lemma real_sources:
  "r \<in> set (map (processed rt) records) \<Longrightarrow> get r ''source'' = PStr ''cbs_test''"
  by (auto simp: processed_def get_def)

lemma collect_real:
  assumes "real_data_returned api"
  shows "\<exists>records. data_reply api = Status 200 (Some records) \<and> records \<noteq> []
           \<and> collect_cbs_data_with_fallback rt api = map (processed rt) records"
  using assms
  by (auto simp: real_data_returned_def collect_cbs_data_with_fallback_def
      test_api_connection_def fetch_sample_house_data_def)

lemma collect_fallback:
  assumes "\<not> real_data_returned api"
  shows "collect_cbs_data_with_fallback rt api = generate_mock_cbs_data rt"
  using assms
  by (auto simp: real_data_returned_def collect_cbs_data_with_fallback_def
      test_api_connection_def fetch_sample_house_data_def
      split: reply.splits option.splits if_splits)

text \<open>
  C8: the collector never returns an empty result. Unless the probe answers 200 and the
  data request answers 200 with at least one record, the result is the output of the mock
  generator, and the caller reads the source \<^verbatim>\<open>cbs_mock\<close> from it; real data reads
  \<^verbatim>\<open>cbs_test\<close>. The mock output has one record for each region and period, in that order,
  every one tagged \<^verbatim>\<open>cbs_mock\<close>.
\<close>

theorem fallback_never_empty:
  "collect_cbs_data_with_fallback rt api \<noteq> []
   \<and> (\<not> real_data_returned api \<longrightarrow>
        collect_cbs_data_with_fallback rt api = generate_mock_cbs_data rt
        \<and> data_source (collect_cbs_data_with_fallback rt api) = PStr ''cbs_mock'')
   \<and> (real_data_returned api \<longrightarrow>
        data_source (collect_cbs_data_with_fallback rt api) = PStr ''cbs_test'')
   \<and> length (generate_mock_cbs_data rt) = length regions * length periods
   \<and> map (\<lambda>r. (get r ''region'', get r ''period'')) (generate_mock_cbs_data rt)
       = map (\<lambda>(region, period). (PStr region, PStr period)) (List.product regions periods)
   \<and> (\<forall>r \<in> set (generate_mock_cbs_data rt). get r ''source'' = PStr ''cbs_mock'')"
proof -
  have ne: "generate_mock_cbs_data rt \<noteq> []"
    using mock_length [of rt] by auto
  have src: "data_source (generate_mock_cbs_data rt) = PStr ''cbs_mock''"
    using ne mock_sources [of _ rt]
    by (cases "generate_mock_cbs_data rt") (auto simp: data_source_def)
  have real: "real_data_returned api \<Longrightarrow>
      collect_cbs_data_with_fallback rt api \<noteq> []
      \<and> data_source (collect_cbs_data_with_fallback rt api) = PStr ''cbs_test''"
  proof -
    assume "real_data_returned api"
    from collect_real [OF this, of rt] obtain records where
      r: "records \<noteq> []" "collect_cbs_data_with_fallback rt api = map (processed rt) records"
      by blast
    then show ?thesis
      by (cases records) (auto simp: data_source_def processed_def get_def)
  qed
  show ?thesis
    using ne src real collect_fallback [of api rt] mock_length [of rt] mock_keys [of rt]
      mock_sources [of _ rt]
    by (cases "real_data_returned api") (simp_all add: regions_def periods_def)
qed

theorem fallback_never_empty_witness:
  "collect_cbs_data_with_fallback sample_runtime rate_limited_api
     = generate_mock_cbs_data sample_runtime
   \<and> data_source (collect_cbs_data_with_fallback sample_runtime rate_limited_api) = PStr ''cbs_mock''
   \<and> data_source (collect_cbs_data_with_fallback sample_runtime working_api) = PStr ''cbs_test''"
proof -
  have no: "\<not> real_data_returned rate_limited_api"
    by (simp add: real_data_returned_def rate_limited_api_def)
  have yes: "real_data_returned working_api"
    by (simp add: real_data_returned_def working_api_def)
  from no yes fallback_never_empty [of sample_runtime rate_limited_api]
    fallback_never_empty [of sample_runtime working_api]
  show ?thesis by blast
qed

section \<open>City scrape: results\<close>

text \<open>
  C9 (as stated): a page-level error that is not a rate limit ends the run early with the
  listings of the earlier pages. On the code the second page answers 404 on all three
  attempts, \<^verbatim>\<open>fetch_page\<close> raises, the handler continues with the loop, and the listing of
  the third page is collected as well.
\<close>

theorem scrape_continues_counterexample:
  "page_listings sample_site sample_parse 2 = Inl RetryError
   \<and> scrape_city_listings sample_site sample_parse 3 = [listing_a, listing_b]"
  by (simp add: page_listings_def fetch_page_def get_once_def sample_site_def sample_parse_def
      scrape_city_listings_def numeral_3_eq_3 upt_rec)

lemma scrape_pages_closed:
  "scrape_pages site parse pages acc
     = acc @ concat (map (\<lambda>p. collected (page_listings site parse p))
                      (takeWhile (\<lambda>p. page_listings site parse p \<noteq> Inr []) pages))"
proof (induction pages arbitrary: acc)
  case Nil
  then show ?case by simp
next
  case (Cons p ps)
  show ?case
  proof (cases "page_listings site parse p")
    case (Inl e)
    with Cons show ?thesis by (simp add: collected_def)
  next
    case (Inr ls)
    with Cons show ?thesis by (simp add: collected_def)
  qed
qed

text \<open>
  C9 (amended): a page whose fetch or parse raises is skipped and the scrape goes on with
  the next page; the run ends early only at the first page that is fetched and parsed but
  yields no listings. The result is the listings of the pages before that one, in page
  order, without the pages that raised; nothing else (no fallback data) is in it.
\<close>

theorem scrape_skips_failed_pages:
  "scrape_city_listings site parse max_pages
     = concat (map (\<lambda>p. collected (page_listings site parse p))
                (takeWhile (\<lambda>p. page_listings site parse p \<noteq> Inr []) [1..<nat (max_pages + 1)]))"
  by (simp add: scrape_city_listings_def scrape_pages_closed)

theorem scrape_skips_failed_pages_witness:
  "scrape_city_listings (\<lambda>page attempt. if page = 2 then Response 200 ''nothing''
                                          else sample_site page attempt) sample_parse 3
     = [listing_a]"
  using scrape_skips_failed_pages
    [of "\<lambda>page attempt. if page = 2 then Response 200 ''nothing'' else sample_site page attempt"
      sample_parse 3]
  by (simp add: page_listings_def fetch_page_def get_once_def sample_site_def sample_parse_def
      collected_def numeral_3_eq_3 upt_rec)

end
